theory Spec2Isabelle
  imports Main
begin

section \<open>JavaScript values that reach the middleware\<close>

text \<open>
  The middleware handles values of type \<open>unknown\<close> in its \<open>catch\<close> block. Three
  properties are read from them, \<open>code\<close>, \<open>message\<close> and \<open>status\<close>, and the value is
  converted to a string for the log unless it is an \<open>Error\<close>. A thrown value is therefore
  one of: \<open>null\<close>, \<open>undefined\<close>, a primitive string, an \<open>Error\<close> instance created by
  \<open>new Error(msg)\<close> (it owns \<open>message\<close> only), an ordinary object with any subset of the
  three properties (a \<open>BetterAuthError\<close>, possibly partial), or such an object that
  \<open>String\<close> cannot convert because it has neither a callable \<open>toString\<close> nor a callable
  \<open>valueOf\<close> (an object made by \<open>Object.create(null)\<close>, or one whose own \<open>toString\<close> and
  \<open>valueOf\<close> are not functions).
\<close>

datatype js_value =
    JsNull
  | JsUndefined
  | JsString string
  | JsError string
  | JsObject "string option" "string option" "int option"
  | JsBareObject "string option" "string option" "int option"

text \<open>\<open>(error as BetterAuthError)?.code\<close>, \<open>?.message\<close> and \<open>?.status\<close>.\<close>

fun prop_code :: "js_value \<Rightarrow> string option" where
  "prop_code (JsObject c m s) = c"
| "prop_code (JsBareObject c m s) = c"
| "prop_code _ = None"

fun prop_message :: "js_value \<Rightarrow> string option" where
  "prop_message (JsObject c m s) = m"
| "prop_message (JsBareObject c m s) = m"
| "prop_message (JsError msg) = Some msg"
| "prop_message _ = None"

fun prop_status :: "js_value \<Rightarrow> int option" where
  "prop_status (JsObject c m s) = s"
| "prop_status (JsBareObject c m s) = s"
| "prop_status _ = None"

text \<open>
  The operator \<open>a || b\<close> on an optional string and on an optional number: \<open>undefined\<close>,
  the empty string and \<open>0\<close> are falsy.
\<close>

fun truthy_str :: "string option \<Rightarrow> bool" where
  "truthy_str None = False"
| "truthy_str (Some s) = (s \<noteq> [])"

fun str_or :: "string option \<Rightarrow> string \<Rightarrow> string" where
  "str_or None d = d"
| "str_or (Some s) d = (if s = [] then d else s)"

fun num_or :: "int option \<Rightarrow> int \<Rightarrow> int" where
  "num_or None d = d"
| "num_or (Some n) d = (if n = 0 then d else n)"

fun truthy_val :: "js_value \<Rightarrow> bool" where
  "truthy_val JsNull = False"
| "truthy_val JsUndefined = False"
| "truthy_val (JsString s) = (s \<noteq> [])"
| "truthy_val (JsError msg) = True"
| "truthy_val (JsObject c m s) = True"
| "truthy_val (JsBareObject c m s) = True"

text \<open>
  \<open>String(v)\<close>: the text of a primitive, \<open>Error.prototype.toString\<close> for an \<open>Error\<close>,
  \<open>[object Object]\<close> for an ordinary object, and a thrown \<open>TypeError\<close> for an object that
  cannot be converted to a primitive value.
\<close>

definition cannot_convert :: js_value where
  "cannot_convert = JsError ''Cannot convert object to primitive value''"

fun String_of :: "js_value \<Rightarrow> js_value + string" where
  "String_of JsNull = Inr ''null''"
| "String_of JsUndefined = Inr ''undefined''"
| "String_of (JsString s) = Inr s"
| "String_of (JsError msg) = Inr (if msg = [] then ''Error'' else ''Error: '' @ msg)"
| "String_of (JsObject c m s) = Inr ''[object Object]''"
| "String_of (JsBareObject c m s) = Inl cannot_convert"


section \<open>Token extractor\<close>

text \<open>
  \<open>extractSessionToken\<close> builds, for every cookie name, the regular expression
  \<open>new RegExp(`${cookieName}=([^;]+)`)\<close> and calls \<open>cookieString.match\<close>. The three names
  consist of letters, \<open>-\<close>, \<open>_\<close> and \<open>.\<close>; in a regular expression all of them stand for
  themselves except the dot, which matches every character but a line terminator.
  Strings are lists of 8-bit characters, which covers what a cookie header holds.
\<close>

datatype rx_atom = Lit char | AnyChar

definition line_terminator :: "char \<Rightarrow> bool" where
  "line_terminator c = (c = CHR 0x0A \<or> c = CHR 0x0D)"

fun atom_matches :: "rx_atom \<Rightarrow> char \<Rightarrow> bool" where
  "atom_matches (Lit a) c = (a = c)"
| "atom_matches AnyChar c = (\<not> line_terminator c)"

definition compile_name :: "string \<Rightarrow> rx_atom list" where
  "compile_name n = map (\<lambda>c. if c = CHR ''.'' then AnyChar else Lit c) n"

text \<open>Matching a sequence of atoms at the start of a string; the rest is returned.\<close>

fun match_prefix :: "rx_atom list \<Rightarrow> string \<Rightarrow> string option" where
  "match_prefix [] s = Some s"
| "match_prefix (a # as) [] = None"
| "match_prefix (a # as) (c # cs) = (if atom_matches a c then match_prefix as cs else None)"

text \<open>
  The whole expression \<open>name=([^;]+)\<close> tried at the start of a string. The group is greedy
  and nothing follows it, so it captures the longest run of characters other than \<open>;\<close>,
  and the attempt fails when that run is empty.
\<close>

definition match_here :: "rx_atom list \<Rightarrow> string \<Rightarrow> string option" where
  "match_here p s =
     (case match_prefix (p @ [Lit CHR ''='']) s of
        None \<Rightarrow> None
      | Some rest \<Rightarrow>
          (let v = takeWhile (\<lambda>c. c \<noteq> CHR '';'') rest
           in if v = [] then None else Some v))"

text \<open>
  \<open>String.prototype.match\<close> with a non-global expression: the leftmost position at which
  the expression matches decides; the result here is capture group 1 of that match.
\<close>

fun regex_match :: "rx_atom list \<Rightarrow> string \<Rightarrow> string option" where
  "regex_match p [] = match_here p []"
| "regex_match p (c # cs) =
     (case match_here p (c # cs) of
        Some v \<Rightarrow> Some v
      | None \<Rightarrow> regex_match p cs)"

definition sessionCookieNames :: "string list" where
  "sessionCookieNames = [''better-auth.session_token'', ''session_token'', ''session'']"

text \<open>The \<open>for\<close> loop over the names; \<open>match?.[1]\<close> is truthy when the capture is not empty.\<close>

fun try_names :: "string list \<Rightarrow> string \<Rightarrow> string option" where
  "try_names [] s = None"
| "try_names (cookieName # rest) s =
     (case regex_match (compile_name cookieName) s of
        Some v \<Rightarrow> (if v \<noteq> [] then Some v else try_names rest s)
      | None \<Rightarrow> try_names rest s)"

definition extractSessionToken :: "string \<Rightarrow> string option" where
  "extractSessionToken cookieString =
     (if cookieString = [] then None else try_names sessionCookieNames cookieString)"


text \<open>
  What the specification says about a cookie header, stated without the matcher: a name
  occurs in the header when some text matched by the name is followed by \<open>=\<close> and by a
  character other than \<open>;\<close>; the value of an occurrence runs up to the next \<open>;\<close> or the
  end of the header; among several occurrences of one name the leftmost counts.
\<close>

text \<open>Trimming, as the specification uses the word: white space is cut off at both ends.\<close>

definition is_space :: "char \<Rightarrow> bool" where
  "is_space c = (c = CHR '' '' \<or> c = CHR 0x09 \<or> c = CHR 0x0A \<or> c = CHR 0x0B
                 \<or> c = CHR 0x0C \<or> c = CHR 0x0D \<or> c = CHR 0xA0)"

definition trim :: "string \<Rightarrow> string" where
  "trim s = rev (dropWhile is_space (rev (dropWhile is_space s)))"

definition pattern_text :: "rx_atom list \<Rightarrow> string \<Rightarrow> bool" where
  "pattern_text p m = list_all2 atom_matches p m"

definition occurs :: "rx_atom list \<Rightarrow> string \<Rightarrow> bool" where
  "occurs p s =
     (\<exists>pre m c rest. s = pre @ m @ CHR ''='' # c # rest \<and> pattern_text p m \<and> c \<noteq> CHR '';'')"

definition value_at :: "rx_atom list \<Rightarrow> string \<Rightarrow> string \<Rightarrow> string \<Rightarrow> bool" where
  "value_at p s pre v =
     (\<exists>m post. s = pre @ m @ CHR ''='' # v @ post \<and> pattern_text p m \<and> v \<noteq> []
        \<and> CHR '';'' \<notin> set v \<and> (post = [] \<or> hd post = CHR '';''))"

definition leftmost_value :: "rx_atom list \<Rightarrow> string \<Rightarrow> string \<Rightarrow> bool" where
  "leftmost_value p s v =
     (\<exists>pre. value_at p s pre v
        \<and> (\<forall>pre' v'. value_at p s pre' v' \<longrightarrow> length pre \<le> length pre'))"


section \<open>Error classifier\<close>

datatype lang = En | Es

text \<open>
  The table \<open>ERROR_MESSAGES\<close>. The Spanish texts contain the letters U+00F1, U+00E1 and
  U+00F3, written here by their code.
\<close>

fun ERROR_MESSAGES :: "string \<Rightarrow> (string \<times> string) option" where
  "ERROR_MESSAGES k =
     (if k = ''USER_ALREADY_EXISTS'' then Some (''User already registered'', ''Usuario ya registrado'')
      else if k = ''INVALID_CREDENTIALS'' then
        Some (''Invalid email or password'',
              ''Correo o contrase'' @ [CHR 0xF1] @ ''a inv'' @ [CHR 0xE1] @ ''lidos'')
      else if k = ''UNAUTHORIZED'' then Some (''Unauthorized access'', ''Acceso no autorizado'')
      else if k = ''SESSION_EXPIRED'' then
        Some (''Session has expired'', ''La sesi'' @ [CHR 0xF3] @ ''n ha expirado'')
      else if k = ''INVALID_SESSION'' then
        Some (''Invalid or missing session'',
              ''Sesi'' @ [CHR 0xF3] @ ''n inv'' @ [CHR 0xE1] @ ''lida o faltante'')
      else None)"

text \<open>
  \<open>ERROR_MESSAGES[errorCode]?.[lang] || "Unknown error"\<close>. A key inherited from
  \<open>Object.prototype\<close> (such as \<open>constructor\<close>) yields an object without the properties
  \<open>en\<close> and \<open>es\<close>, hence the same default as a missing key.
\<close>

definition getErrorMessage :: "string \<Rightarrow> lang \<Rightarrow> string" where
  "getErrorMessage errorCode l =
     (case ERROR_MESSAGES errorCode of
        None \<Rightarrow> ''Unknown error''
      | Some (en, es) \<Rightarrow> str_or (Some (case l of En \<Rightarrow> en | Es \<Rightarrow> es)) ''Unknown error'')"

record error_body =
  success :: bool
  message :: string
  code :: string

definition createErrorResponse ::
  "js_value \<Rightarrow> 'ctx \<Rightarrow> ('ctx \<Rightarrow> error_body \<Rightarrow> int \<Rightarrow> 'resp) \<Rightarrow> 'resp" where
  "createErrorResponse error ctx createResponse =
     (let code = str_or (prop_code error) ''UNAUTHORIZED'';
          message = (if truthy_str (prop_code error) then getErrorMessage code En
                     else str_or (prop_message error) ''Invalid or missing session'');
          status = num_or (prop_status error) 401
      in createResponse ctx \<lparr>success = False, message = message, code = code\<rparr> status)"


section \<open>Session cache\<close>

text \<open>
  \<open>SessionCache\<close> wraps an \<open>LRUCache\<close> of the package \<open>lru-cache\<close>, a dependency whose
  code is not part of the repository. The model below follows the documented behaviour of
  that class for the options the constructor of \<open>SessionCache\<close> passes (\<open>max\<close>, \<open>ttl\<close>,
  \<open>allowStale\<close>, \<open>updateAgeOnGet\<close>); every other option keeps its default:
  \<^item> the items are kept in order of use, least recently used first;
  \<^item> an item is stale when a time-to-live is set and more than \<open>ttl\<close> milliseconds have
    passed since its age was last reset (\<open>now - start > ttl\<close>); stale items are not
    purged in the background;
  \<^item> \<open>has\<close> answers false for a missing or stale key and changes nothing;
  \<^item> \<open>get\<close> of a stale key deletes the item and returns it only under \<open>allowStale\<close>;
    \<open>get\<close> of a fresh key makes the item the most recently used one and, under
    \<open>updateAgeOnGet\<close>, resets its age;
  \<^item> \<open>set\<close> of a present key replaces the value, makes the item the most recently used one
    and resets its age; \<open>set\<close> of a new key into a full cache first evicts the least
    recently used item;
  \<^item> the constructor throws a \<open>TypeError\<close> when neither \<open>max\<close> nor \<open>ttl\<close> is given a
    non-zero value; \<open>max = 0\<close> means no bound and \<open>ttl = 0\<close> means no expiry.
  Every operation decides with one reading of the clock; the reading is an argument
  (milliseconds, a natural number), and the readings of successive operations are not
  related by the model, so that time may pass between any two of them. The time-to-live
  of \<open>SessionCache\<close> is taken in whole seconds.
\<close>

record 'v cache_entry =
  ekey :: string
  evalue :: 'v
  estart :: nat

record 'v LRUCache =
  opt_max :: nat
  opt_ttl :: nat
  opt_allowStale :: bool
  opt_updateAgeOnGet :: bool
  items :: "'v cache_entry list"

definition LRUCache_new :: "nat \<Rightarrow> nat \<Rightarrow> bool \<Rightarrow> bool \<Rightarrow> js_value + 'v LRUCache" where
  "LRUCache_new maxN ttlMs allowStale updateAgeOnGet =
     (if maxN = 0 \<and> ttlMs = 0 then Inl (JsError ''At least one of max, maxSize, or ttl is required'')
      else Inr \<lparr>opt_max = maxN, opt_ttl = ttlMs, opt_allowStale = allowStale,
                opt_updateAgeOnGet = updateAgeOnGet, items = []\<rparr>)"

definition isStale :: "'v LRUCache \<Rightarrow> 'v cache_entry \<Rightarrow> nat \<Rightarrow> bool" where
  "isStale c e now = (opt_ttl c \<noteq> 0 \<and> estart e + opt_ttl c < now)"

definition lru_lookup :: "'v LRUCache \<Rightarrow> string \<Rightarrow> 'v cache_entry option" where
  "lru_lookup c k = find (\<lambda>e. ekey e = k) (items c)"

definition without :: "string \<Rightarrow> 'v cache_entry list \<Rightarrow> 'v cache_entry list" where
  "without k es = filter (\<lambda>e. ekey e \<noteq> k) es"

definition lru_has :: "'v LRUCache \<Rightarrow> string \<Rightarrow> nat \<Rightarrow> bool" where
  "lru_has c k now =
     (case lru_lookup c k of
        None \<Rightarrow> False
      | Some e \<Rightarrow> \<not> isStale c e now)"

definition lru_get :: "'v LRUCache \<Rightarrow> string \<Rightarrow> nat \<Rightarrow> 'v option \<times> 'v LRUCache" where
  "lru_get c k now =
     (case lru_lookup c k of
        None \<Rightarrow> (None, c)
      | Some e \<Rightarrow>
          if isStale c e now then
            (if opt_allowStale c then Some (evalue e) else None,
             c\<lparr>items := without k (items c)\<rparr>)
          else
            (Some (evalue e),
             c\<lparr>items := without k (items c)
                          @ [if opt_updateAgeOnGet c then e\<lparr>estart := now\<rparr> else e]\<rparr>))"

definition lru_set :: "'v LRUCache \<Rightarrow> string \<Rightarrow> 'v \<Rightarrow> nat \<Rightarrow> 'v LRUCache" where
  "lru_set c k v now =
     (let fresh = \<lparr>ekey = k, evalue = v, estart = now\<rparr>
      in case lru_lookup c k of
           Some e \<Rightarrow> c\<lparr>items := without k (items c) @ [fresh]\<rparr>
         | None \<Rightarrow>
             c\<lparr>items := (if length (items c) = opt_max c \<and> items c \<noteq> []
                          then tl (items c) else items c) @ [fresh]\<rparr>)"

definition lru_delete :: "'v LRUCache \<Rightarrow> string \<Rightarrow> 'v LRUCache" where
  "lru_delete c k = c\<lparr>items := without k (items c)\<rparr>"

definition lru_clear :: "'v LRUCache \<Rightarrow> 'v LRUCache" where
  "lru_clear c = c\<lparr>items := []\<rparr>"

definition lru_size :: "'v LRUCache \<Rightarrow> nat" where
  "lru_size c = length (items c)"

text \<open>
  The class \<open>SessionCache\<close>: the constructor (defaults \<open>max = 1000\<close>, \<open>ttl = 300\<close>) and the
  six methods, which delegate to the wrapped cache.
\<close>

definition SessionCache_new :: "nat option \<Rightarrow> nat option \<Rightarrow> js_value + 'v LRUCache" where
  "SessionCache_new maxN ttlS =
     LRUCache_new (case maxN of None \<Rightarrow> 1000 | Some m \<Rightarrow> m)
                  ((case ttlS of None \<Rightarrow> 300 | Some t \<Rightarrow> t) * 1000) False True"

definition cache_get :: "'v LRUCache \<Rightarrow> string \<Rightarrow> nat \<Rightarrow> 'v option \<times> 'v LRUCache" where
  "cache_get c key now = lru_get c key now"

definition cache_set :: "'v LRUCache \<Rightarrow> string \<Rightarrow> 'v \<Rightarrow> nat \<Rightarrow> 'v LRUCache" where
  "cache_set c key v now = lru_set c key v now"

definition cache_delete :: "'v LRUCache \<Rightarrow> string \<Rightarrow> 'v LRUCache" where
  "cache_delete c key = lru_delete c key"

definition cache_has :: "'v LRUCache \<Rightarrow> string \<Rightarrow> nat \<Rightarrow> bool" where
  "cache_has c key now = lru_has c key now"

definition cache_clear :: "'v LRUCache \<Rightarrow> 'v LRUCache" where
  "cache_clear c = lru_clear c"

definition cache_size :: "'v LRUCache \<Rightarrow> nat" where
  "cache_size c = lru_size c"

text \<open>The keys held by a cache, least recently used first, and a run of insertions.\<close>

definition cache_keys :: "'v LRUCache \<Rightarrow> string list" where
  "cache_keys c = map ekey (items c)"

fun set_all :: "'v LRUCache \<Rightarrow> (string \<times> 'v \<times> nat) list \<Rightarrow> 'v LRUCache" where
  "set_all c [] = c"
| "set_all c ((k, v, now) # rest) = set_all (cache_set c k v now) rest"


text \<open>
  A run of \<open>get\<close> calls on one key at the given clock readings, and the condition that
  each reading of such a run is at most \<open>ttl\<close> after the one before it.
\<close>

fun get_all :: "'v LRUCache \<Rightarrow> string \<Rightarrow> nat list \<Rightarrow> 'v LRUCache" where
  "get_all c k [] = c"
| "get_all c k (now # rest) = get_all (snd (cache_get c k now)) k rest"

fun each_within :: "nat \<Rightarrow> nat \<Rightarrow> nat list \<Rightarrow> bool" where
  "each_within ttlMs start [] = True"
| "each_within ttlMs start (now # rest) = (now \<le> start + ttlMs \<and> each_within ttlMs now rest)"


section \<open>Authentication orchestrator\<close>

record BetterAuthUser =
  user_id :: string
  email :: string
  name :: "string option"

record BetterAuthSession =
  session_id :: string
  userId :: string
  expiresAt :: string

record AuthContext =
  user :: BetterAuthUser
  session :: BetterAuthSession

text \<open>
  A response of the remote resolver. Each of \<open>data\<close>, \<open>data.user\<close>, \<open>data.session\<close> and
  \<open>error\<close> may be missing or \<open>null\<close>.
\<close>

record session_data =
  data_user :: "BetterAuthUser option"
  data_session :: "BetterAuthSession option"

record BetterAuthSessionResponse =
  data :: "session_data option"
  error :: "js_value option"

record CacheOptions =
  enabled :: bool
  ttl_opt :: "nat option"
  max_opt :: "nat option"

text \<open>
  The options read by the middleware. The logger only writes messages and is left out;
  of the framework adapter, \<open>createResponse\<close> is a field here and \<open>getHeaders\<close>,
  \<open>setContext\<close> belong to the request below. \<open>onError\<close> returns a response or throws.
\<close>

record ('ctx, 'resp) AuthMiddlewareOptions =
  cache :: "CacheOptions option"
  onError :: "(js_value \<Rightarrow> 'ctx \<Rightarrow> js_value + 'resp) option"
  createResponse :: "'ctx \<Rightarrow> error_body \<Rightarrow> int \<Rightarrow> 'resp"

fun nat_or :: "nat option \<Rightarrow> nat \<Rightarrow> nat" where
  "nat_or None d = d"
| "nat_or (Some n) d = (if n = 0 then d else n)"

text \<open>
  \<open>createAuthMiddleware\<close> builds the cache once:
  \<open>cache?.enabled ? new SessionCache(cache.max || 1000, cache.ttl || 300) : null\<close>.
\<close>

definition createAuthMiddleware ::
  "('ctx, 'resp) AuthMiddlewareOptions \<Rightarrow> js_value + AuthContext LRUCache option" where
  "createAuthMiddleware options =
     (case cache options of
        None \<Rightarrow> Inr None
      | Some co \<Rightarrow>
          if enabled co then
            (case SessionCache_new (Some (nat_or (max_opt co) 1000)) (Some (nat_or (ttl_opt co) 300)) of
               Inl e \<Rightarrow> Inl e
             | Inr c \<Rightarrow> Inr (Some c))
          else Inr None)"

text \<open>
  What the surroundings do during one request: \<open>framework.getHeaders(req)\<close> throws or
  returns headers, of which only \<open>cookie\<close> is read; \<open>authClient.getSession\<close> rejects or
  resolves with a response (a result that is no object makes the property access throw
  inside the \<open>try\<close> block and is covered by the rejecting case); \<open>next()\<close> resolves or
  rejects; the three cache operations read the clock at \<open>now_has\<close>, \<open>now_get\<close> and
  \<open>now_set\<close>. \<open>framework.setContext\<close>, \<open>framework.createResponse\<close> and the logger are
  taken to return normally.
\<close>

record request =
  getHeaders :: "js_value + string option"
  getSession :: "js_value + BetterAuthSessionResponse"
  next_result :: "js_value option"
  now_has :: nat
  now_get :: nat
  now_set :: nat

text \<open>The calls made to the surroundings, in order.\<close>

datatype event =
    GetSession
  | SetContextUser BetterAuthUser
  | SetContextSession BetterAuthSession
  | Next

datatype 'resp outcome = Returned "'resp option" | Thrown js_value

text \<open>
  \<open>AuthResponse\<close>, and the \<open>createResponse\<close> of the adapters shown in the README:
  \<open>(req, body, status) => ({ status, body })\<close>.
\<close>

record AuthResponse =
  status :: int
  body :: error_body

definition status_body_response :: "'ctx \<Rightarrow> error_body \<Rightarrow> int \<Rightarrow> AuthResponse" where
  "status_body_response ctx b st = \<lparr>status = st, body = b\<rparr>"

text \<open>\<open>setContext\<close> twice, then \<open>await next()\<close>.\<close>

definition inject_and_continue :: "request \<Rightarrow> AuthContext \<Rightarrow> (js_value + unit) \<times> event list" where
  "inject_and_continue rq a =
     (case next_result rq of
        None \<Rightarrow> Inr ()
      | Some e \<Rightarrow> Inl e,
      [SetContextUser (user a), SetContextSession (session a), Next])"

text \<open>
  The middleware calls three methods of its cache: \<open>has\<close>, \<open>get\<close> and \<open>set\<close> (\<open>size\<close> only
  for a log message). They are parameters of the functions below, on a cache state of
  any type: applied to the \<open>SessionCache\<close> of the repository they give the middleware as
  it ships, applied to other operations they give the middleware of the test suite, which
  replaces the class \<open>SessionCache\<close> by a mock.
\<close>

record 'c cache_methods =
  method_has :: "'c \<Rightarrow> string \<Rightarrow> bool"
  method_get :: "'c \<Rightarrow> string \<Rightarrow> AuthContext option \<times> 'c"
  method_set :: "'c \<Rightarrow> string \<Rightarrow> AuthContext \<Rightarrow> 'c"

text \<open>Lines 82 to 121 of the middleware: the remote call and what follows it.\<close>

definition invalid_response :: js_value where
  "invalid_response = JsError ''Invalid session response''"

definition resolve_remote_with ::
  "'c cache_methods \<Rightarrow> request \<Rightarrow> string \<Rightarrow> 'c option
     \<Rightarrow> (js_value + unit) \<times> 'c option \<times> event list" where
  "resolve_remote_with methods rq sessionToken sessionCache =
     (case getSession rq of
        Inl e \<Rightarrow> (Inl e, sessionCache, [GetSession])
      | Inr sessionResponse \<Rightarrow>
          (case (case error sessionResponse of
                   None \<Rightarrow> None
                 | Some e \<Rightarrow> if truthy_val e then Some e else None) of
             Some e \<Rightarrow> (Inl e, sessionCache, [GetSession])
           | None \<Rightarrow>
               (case data sessionResponse of
                  None \<Rightarrow> (Inl invalid_response, sessionCache, [GetSession])
                | Some d \<Rightarrow>
                    (case data_session d of
                       None \<Rightarrow> (Inl invalid_response, sessionCache, [GetSession])
                     | Some s \<Rightarrow>
                         (case data_user d of
                            None \<Rightarrow> (Inl invalid_response, sessionCache, [GetSession])
                          | Some u \<Rightarrow>
                              (let authContext = \<lparr>user = u, session = s\<rparr>;
                                   sessionCache' =
                                     (case sessionCache of
                                        None \<Rightarrow> None
                                      | Some c \<Rightarrow>
                                          Some (method_set methods c sessionToken authContext));
                                   (r, evs) = inject_and_continue rq authContext
                               in (r, sessionCache', GetSession # evs)))))))"

text \<open>The body of \<open>try\<close>: its result is \<open>Inl\<close> of the thrown value when it throws.\<close>

definition try_block_with ::
  "'c cache_methods \<Rightarrow> request \<Rightarrow> 'c option
     \<Rightarrow> (js_value + unit) \<times> 'c option \<times> event list" where
  "try_block_with methods rq sessionCache =
     (case getHeaders rq of
        Inl e \<Rightarrow> (Inl e, sessionCache, [])
      | Inr cookie \<Rightarrow>
          (let cookieString = str_or cookie []
           in case extractSessionToken cookieString of
                None \<Rightarrow> (Inl (JsError ''No session token found''), sessionCache, [])
              | Some sessionToken \<Rightarrow>
                  if sessionToken = [] then
                    (Inl (JsError ''No session token found''), sessionCache, [])
                  else
                    (case sessionCache of
                       None \<Rightarrow> resolve_remote_with methods rq sessionToken None
                     | Some c \<Rightarrow>
                         if method_has methods c sessionToken then
                           (case method_get methods c sessionToken of
                              (Some cached, c') \<Rightarrow>
                                (let (r, evs) = inject_and_continue rq cached
                                 in (r, Some c', evs))
                            | (None, c') \<Rightarrow> resolve_remote_with methods rq sessionToken (Some c'))
                         else resolve_remote_with methods rq sessionToken (Some c))))"

text \<open>
  The \<open>catch\<close> block. It first evaluates the argument of the log call,
  \<open>error instanceof Error ? error.message : String(error)\<close>; when that conversion throws,
  the exception leaves the middleware before the hook or the classifier is reached.
  Then \<open>onError\<close>, when configured, gives the result (or throws), and otherwise
  \<open>createErrorResponse\<close> does.
\<close>

definition log_error_text :: "js_value \<Rightarrow> js_value + string" where
  "log_error_text e = (case e of JsError msg \<Rightarrow> Inr msg | _ \<Rightarrow> String_of e)"

definition catch_block ::
  "('ctx, 'resp) AuthMiddlewareOptions \<Rightarrow> 'ctx \<Rightarrow> js_value \<Rightarrow> 'resp outcome" where
  "catch_block options ctx e =
     (case log_error_text e of
        Inl x \<Rightarrow> Thrown x
      | Inr logged \<Rightarrow>
          (case onError options of
             Some hook \<Rightarrow>
               (case hook e ctx of
                  Inl x \<Rightarrow> Thrown x
                | Inr r \<Rightarrow> Returned (Some r))
           | None \<Rightarrow> Returned (Some (createErrorResponse e ctx (createResponse options)))))"

text \<open>
  The function returned by \<open>createAuthMiddleware\<close>: the \<open>try\<close> block and the \<open>catch\<close>
  block. The result is the outcome, the cache afterwards and the calls made.
\<close>

definition middleware_with ::
  "'c cache_methods \<Rightarrow> ('ctx, 'resp) AuthMiddlewareOptions \<Rightarrow> request \<Rightarrow> 'ctx \<Rightarrow> 'c option
     \<Rightarrow> 'resp outcome \<times> 'c option \<times> event list" where
  "middleware_with methods options rq ctx sessionCache =
     (case try_block_with methods rq sessionCache of
        (Inr u, sessionCache', evs) \<Rightarrow> (Returned None, sessionCache', evs)
      | (Inl e, sessionCache', evs) \<Rightarrow> (catch_block options ctx e, sessionCache', evs))"

text \<open>
  The middleware as it ships: the methods are those of \<open>SessionCache\<close>, reading the clock
  at the times of the request.
\<close>

definition SessionCache_methods :: "request \<Rightarrow> AuthContext LRUCache cache_methods" where
  "SessionCache_methods rq =
     \<lparr>method_has = (\<lambda>c key. cache_has c key (now_has rq)),
      method_get = (\<lambda>c key. cache_get c key (now_get rq)),
      method_set = (\<lambda>c key v. cache_set c key v (now_set rq))\<rparr>"

definition resolve_remote ::
  "request \<Rightarrow> string \<Rightarrow> AuthContext LRUCache option
     \<Rightarrow> (js_value + unit) \<times> AuthContext LRUCache option \<times> event list" where
  "resolve_remote rq = resolve_remote_with (SessionCache_methods rq) rq"

definition try_block ::
  "request \<Rightarrow> AuthContext LRUCache option
     \<Rightarrow> (js_value + unit) \<times> AuthContext LRUCache option \<times> event list" where
  "try_block rq = try_block_with (SessionCache_methods rq) rq"

definition middleware ::
  "('ctx, 'resp) AuthMiddlewareOptions \<Rightarrow> request \<Rightarrow> 'ctx \<Rightarrow> AuthContext LRUCache option
     \<Rightarrow> 'resp outcome \<times> AuthContext LRUCache option \<times> event list" where
  "middleware options rq = middleware_with (SessionCache_methods rq) options rq"

text \<open>
  The token the middleware extracts from a request, a run of invocations of one
  middleware on its cache, one after the other, and the condition that each request of
  such a run reads the cache (\<open>has\<close>, then \<open>get\<close>) at most \<open>ttl\<close> after the entry was last
  refreshed, by the write at \<open>start\<close> or by the \<open>get\<close> of the request before.
\<close>

definition request_token :: "request \<Rightarrow> string option" where
  "request_token rq =
     (case getHeaders rq of
        Inl e \<Rightarrow> None
      | Inr cookie \<Rightarrow> extractSessionToken (str_or cookie []))"

fun run_all ::
  "('ctx, 'resp) AuthMiddlewareOptions \<Rightarrow> 'ctx \<Rightarrow> request list \<Rightarrow> AuthContext LRUCache option
     \<Rightarrow> ('resp outcome \<times> event list) list" where
  "run_all options ctx [] sessionCache = []"
| "run_all options ctx (rq # rest) sessionCache =
     (case middleware options rq ctx sessionCache of
        (out, sessionCache', evs) \<Rightarrow> (out, evs) # run_all options ctx rest sessionCache')"

fun reads_within :: "nat \<Rightarrow> nat \<Rightarrow> request list \<Rightarrow> bool" where
  "reads_within ttlMs start [] = True"
| "reads_within ttlMs start (rq # rest) =
     (now_has rq \<le> start + ttlMs \<and> now_get rq \<le> start + ttlMs
      \<and> reads_within ttlMs (now_get rq) rest)"

section \<open>Scenario data\<close>

text \<open>
  The values of the scenarios listed in the specification and in the test suite: the
  resolved user and session, a request with the cookie header
  \<open>better-auth.session_token=abc123; other=1\<close> whose remote resolution succeeds, the
  options with the cache enabled and no error hook together with the cache that
  \<open>createAuthMiddleware\<close> builds for them, a cache of two entries living one second, an
  error hook that rejects and one that answers with status 403, and the mocked cache of
  the test \<open>should handle cache with undefined value\<close>: \<open>has\<close> answers \<open>true\<close>, \<open>get\<close>
  answers \<open>undefined\<close>, and the calls of \<open>set\<close> are recorded.
\<close>

definition scenario_user :: BetterAuthUser where
  "scenario_user = \<lparr>user_id = ''u1'', email = ''a@b.com'', name = None\<rparr>"

definition scenario_session :: BetterAuthSession where
  "scenario_session = \<lparr>session_id = ''s1'', userId = ''u1'', expiresAt = ''2030-01-01T00:00:00Z''\<rparr>"

definition scenario_context :: AuthContext where
  "scenario_context = \<lparr>user = scenario_user, session = scenario_session\<rparr>"

definition scenario_request :: request where
  "scenario_request =
     \<lparr>getHeaders = Inr (Some ''better-auth.session_token=abc123; other=1''),
      getSession = Inr \<lparr>data = Some \<lparr>data_user = Some scenario_user,
                                        data_session = Some scenario_session\<rparr>,
                         error = None\<rparr>,
      next_result = None, now_has = 5, now_get = 5, now_set = 5\<rparr>"

definition scenario_options :: "(unit, AuthResponse) AuthMiddlewareOptions" where
  "scenario_options =
     \<lparr>cache = Some \<lparr>enabled = True, ttl_opt = None, max_opt = None\<rparr>,
      onError = None, createResponse = status_body_response\<rparr>"

definition scenario_cache :: "AuthContext LRUCache" where
  "scenario_cache =
     \<lparr>opt_max = 1000, opt_ttl = 300000, opt_allowStale = False, opt_updateAgeOnGet = True,
      items = []\<rparr>"

definition small_cache :: "AuthContext LRUCache" where
  "small_cache =
     \<lparr>opt_max = 2, opt_ttl = 1000, opt_allowStale = False, opt_updateAgeOnGet = True,
      items = []\<rparr>"

definition rejecting_hook :: "js_value \<Rightarrow> unit \<Rightarrow> js_value + AuthResponse" where
  "rejecting_hook e ctx = Inl (JsError ''Custom error handler failed'')"

definition responding_hook :: "js_value \<Rightarrow> unit \<Rightarrow> js_value + AuthResponse" where
  "responding_hook e ctx =
     Inr \<lparr>status = 403, body = \<lparr>success = False, message = ''custom'', code = ''error''\<rparr>\<rparr>"

definition undefined_value_mock :: "(string \<times> AuthContext) list cache_methods" where
  "undefined_value_mock =
     \<lparr>method_has = (\<lambda>calls key. True),
      method_get = (\<lambda>calls key. (None, calls)),
      method_set = (\<lambda>calls key v. calls @ [(key, v)])\<rparr>"


section \<open>Properties of the error classifier\<close>

lemma dictionary_en_nonempty: "ERROR_MESSAGES c = Some (en, es) \<Longrightarrow> en \<noteq> []"
  by (auto split: if_splits)

text \<open>
  C2, as amended. For every error value whose \<open>code\<close> is a non-empty string, the classifier
  keeps that code, takes the English text of the table for it or \<open>Unknown error\<close> when the
  table has no such key, and uses the status of the error, 401 when the error has none
  (or has status 0).
\<close>

theorem createErrorResponse_nonempty_code:
  "prop_code err = Some c \<Longrightarrow> c \<noteq> [] \<Longrightarrow>
     createErrorResponse err ctx mk =
       mk ctx \<lparr>success = False,
               message = (case ERROR_MESSAGES c of
                            None \<Rightarrow> ''Unknown error''
                          | Some (en, es) \<Rightarrow> en),
               code = c\<rparr>
          (case prop_status err of None \<Rightarrow> 401 | Some n \<Rightarrow> if n = 0 then 401 else n)"
proof -
  assume c: "prop_code err = Some c" and ne: "c \<noteq> []"
  have msg: "getErrorMessage c En =
               (case ERROR_MESSAGES c of None \<Rightarrow> ''Unknown error'' | Some (en, es) \<Rightarrow> en)"
  proof (cases "ERROR_MESSAGES c")
    case None
    then show ?thesis by (simp add: getErrorMessage_def)
  next
    case (Some p)
    obtain en es where p: "p = (en, es)" by (cases p)
    with Some have "en \<noteq> []" using dictionary_en_nonempty by blast
    with Some p show ?thesis by (simp add: getErrorMessage_def)
  qed
  have st: "num_or (prop_status err) 401 =
              (case prop_status err of None \<Rightarrow> 401 | Some n \<Rightarrow> if n = 0 then 401 else n)"
    by (cases "prop_status err") simp_all
  show ?thesis
    unfolding createErrorResponse_def Let_def using c ne msg st by simp
qed

text \<open>The remote error \<open>{code: "SESSION_EXPIRED", message: ...}\<close> without a status.\<close>

theorem createErrorResponse_nonempty_code_witness:
  "prop_code (JsObject (Some ''SESSION_EXPIRED'') (Some ''expired upstream'') None)
     = Some ''SESSION_EXPIRED''
   \<and> ''SESSION_EXPIRED'' \<noteq> []
   \<and> createErrorResponse (JsObject (Some ''SESSION_EXPIRED'') (Some ''expired upstream'') None) ()
        status_body_response
      = \<lparr>status = 401,
         body = \<lparr>success = False, message = ''Session has expired'', code = ''SESSION_EXPIRED''\<rparr>\<rparr>"
  using createErrorResponse_nonempty_code
          [of "JsObject (Some ''SESSION_EXPIRED'') (Some ''expired upstream'') None"
              "''SESSION_EXPIRED''" "()" status_body_response]
  by (simp add: status_body_response_def)

text \<open>
  C2 as stated fails for the error \<open>{code: "", message: "boom"}\<close>: the empty code is not a
  key of the table, yet the message is not \<open>Unknown error\<close> and the code is not kept.
\<close>

theorem createErrorResponse_empty_code_counterexample:
  "ERROR_MESSAGES [] = None
   \<and> createErrorResponse (JsObject (Some []) (Some ''boom'') None) () status_body_response
      = \<lparr>status = 401,
         body = \<lparr>success = False, message = ''boom'', code = ''UNAUTHORIZED''\<rparr>\<rparr>
   \<and> createErrorResponse (JsObject (Some []) (Some ''boom'') None) () status_body_response
      \<noteq> \<lparr>status = 401,
            body = \<lparr>success = False, message = ''Unknown error'', code = []\<rparr>\<rparr>"
  by (simp add: createErrorResponse_def status_body_response_def)


text \<open>
  The closing sentence of the amended C2 in general: an error whose code is the empty
  string, like an error without a code, gets the code \<open>UNAUTHORIZED\<close>, its own message
  (\<open>Invalid or missing session\<close> when it has none) and its own status (401 when it has
  none); so both are classified alike.
\<close>

lemma createErrorResponse_falsy_code:
  "prop_code err = None \<or> prop_code err = Some [] \<Longrightarrow>
     createErrorResponse err ctx mk =
       mk ctx \<lparr>success = False,
               message = str_or (prop_message err) ''Invalid or missing session'',
               code = ''UNAUTHORIZED''\<rparr>
          (num_or (prop_status err) 401)"
  unfolding createErrorResponse_def Let_def by auto

lemma empty_code_like_missing_code:
  "createErrorResponse (JsObject (Some []) m st) ctx mk
     = createErrorResponse (JsObject None m st) ctx mk"
  by (simp add: createErrorResponse_falsy_code)


section \<open>Properties of the token extractor\<close>

subsection \<open>The matcher finds exactly the occurrences\<close>

lemma match_prefix_iff:
  "match_prefix p s = Some rest \<longleftrightarrow> (\<exists>m. s = m @ rest \<and> pattern_text p m)"
proof (induction p s rule: match_prefix.induct)
  case (1 s)
  then show ?case by (auto simp: pattern_text_def)
next
  case (2 a as)
  then show ?case by (auto simp: pattern_text_def list_all2_Cons1)
next
  case (3 a as c cs)
  show ?case
  proof (cases "atom_matches a c")
    case True
    with 3 show ?thesis
      by (auto simp: pattern_text_def list_all2_Cons1 Cons_eq_append_conv)
  next
    case False
    then show ?thesis
      by (auto simp: pattern_text_def list_all2_Cons1 Cons_eq_append_conv)
  qed
qed

lemma pattern_text_snoc:
  "pattern_text (p @ [Lit CHR ''='']) m' \<longleftrightarrow> (\<exists>m. m' = m @ [CHR ''=''] \<and> pattern_text p m)"
proof
  assume "pattern_text (p @ [Lit CHR ''='']) m'"
  then show "\<exists>m. m' = m @ [CHR ''=''] \<and> pattern_text p m"
    by (auto simp: pattern_text_def list_all2_append1 list_all2_Cons1)
next
  assume "\<exists>m. m' = m @ [CHR ''=''] \<and> pattern_text p m"
  then obtain m where m: "m' = m @ [CHR ''='']" "list_all2 atom_matches p m"
    by (auto simp: pattern_text_def)
  then have "length p = length m" by (simp add: list_all2_lengthD)
  with m show "pattern_text (p @ [Lit CHR ''='']) m'"
    by (simp add: pattern_text_def list_all2_appendI)
qed

lemma takeWhile_value:
  "CHR '';'' \<notin> set v \<Longrightarrow> post = [] \<or> hd post = CHR '';'' \<Longrightarrow>
     takeWhile (\<lambda>c. c \<noteq> CHR '';'') (v @ post) = v"
  by (cases post) (auto simp: takeWhile_append takeWhile_eq_all_conv)

lemma match_here_iff: "match_here p s = Some v \<longleftrightarrow> value_at p s [] v"
proof
  assume "match_here p s = Some v"
  then obtain rest where r: "match_prefix (p @ [Lit CHR ''='']) s = Some rest"
    and v: "v = takeWhile (\<lambda>c. c \<noteq> CHR '';'') rest" and ne: "v \<noteq> []"
    by (auto simp: match_here_def Let_def split: option.splits if_splits)
  from r obtain m where m: "s = (m @ [CHR ''='']) @ rest" "pattern_text p m"
    by (auto simp: match_prefix_iff pattern_text_snoc)
  define post where "post = dropWhile (\<lambda>c. c \<noteq> CHR '';'') rest"
  have rest: "rest = v @ post" by (simp add: v post_def)
  have "post = [] \<or> hd post = CHR '';''"
    unfolding post_def using hd_dropWhile[of "\<lambda>c. c \<noteq> CHR '';''" rest] by auto
  moreover have "CHR '';'' \<notin> set v" unfolding v by (auto dest: set_takeWhileD)
  ultimately show "value_at p s [] v"
    unfolding value_at_def using m rest ne by auto
next
  assume "value_at p s [] v"
  then obtain m post where s: "s = m @ CHR ''='' # v @ post" and pm: "pattern_text p m"
    and ne: "v \<noteq> []" and semi: "CHR '';'' \<notin> set v" and post: "post = [] \<or> hd post = CHR '';''"
    by (auto simp: value_at_def)
  have "match_prefix (p @ [Lit CHR ''='']) s = Some (v @ post)"
    unfolding match_prefix_iff pattern_text_snoc using s pm by auto
  then show "match_here p s = Some v"
    using ne takeWhile_value[OF semi post] by (simp add: match_here_def Let_def)
qed

lemma value_at_Cons:
  "value_at p (c # cs) (c' # pre) v \<longleftrightarrow> c' = c \<and> value_at p cs pre v"
  by (auto simp: value_at_def)

lemma value_at_Nil: "value_at p [] pre v \<longleftrightarrow> False"
  by (auto simp: value_at_def)

lemma regex_match_leftmost: "regex_match p s = Some v \<Longrightarrow> leftmost_value p s v"
proof (induction s)
  case Nil
  then show ?case by (simp add: match_here_iff value_at_Nil)
next
  case (Cons c cs)
  show ?case
  proof (cases "match_here p (c # cs)")
    case (Some w)
    with Cons.prems have "w = v" by simp
    with Some have "value_at p (c # cs) [] v" by (simp add: match_here_iff)
    then show ?thesis unfolding leftmost_value_def by (intro exI[of _ "[]"]) simp
  next
    case None
    with Cons.prems have "regex_match p cs = Some v" by simp
    then obtain pre where pre: "value_at p cs pre v"
      and least: "\<forall>pre' v'. value_at p cs pre' v' \<longrightarrow> length pre \<le> length pre'"
      using Cons.IH by (auto simp: leftmost_value_def)
    have no: "\<not> value_at p (c # cs) [] v'" for v'
      using None by (simp flip: match_here_iff)
    show ?thesis
      unfolding leftmost_value_def
    proof (intro exI[of _ "c # pre"] conjI allI impI)
      show "value_at p (c # cs) (c # pre) v" using pre by (simp add: value_at_Cons)
    next
      fix pre' v'
      assume "value_at p (c # cs) pre' v'"
      then obtain q where "pre' = c # q" "value_at p cs q v'"
        using no by (cases pre') (auto simp: value_at_Cons)
      then show "length (c # pre) \<le> length pre'" using least by auto
    qed
  qed
qed

lemma occurs_iff_value: "occurs p s \<longleftrightarrow> (\<exists>pre v. value_at p s pre v)"
proof
  assume "occurs p s"
  then obtain pre m c rest where s: "s = pre @ m @ CHR ''='' # c # rest"
    and pm: "pattern_text p m" and c: "c \<noteq> CHR '';''"
    by (auto simp: occurs_def)
  define v where "v = takeWhile (\<lambda>x. x \<noteq> CHR '';'') (c # rest)"
  define post where "post = dropWhile (\<lambda>x. x \<noteq> CHR '';'') (c # rest)"
  have "c # rest = v @ post" by (simp add: v_def post_def)
  moreover have "v \<noteq> []" using c by (simp add: v_def)
  moreover have "CHR '';'' \<notin> set v" unfolding v_def by (auto dest: set_takeWhileD)
  moreover have "post = [] \<or> hd post = CHR '';''"
    unfolding post_def using hd_dropWhile[of "\<lambda>x. x \<noteq> CHR '';''" "c # rest"] by auto
  ultimately show "\<exists>pre v. value_at p s pre v"
    unfolding value_at_def using s pm by (intro exI[of _ pre] exI[of _ v] exI[of _ m] exI[of _ post]) simp
next
  assume "\<exists>pre v. value_at p s pre v"
  then obtain pre v m post where s: "s = pre @ m @ CHR ''='' # v @ post"
    and pm: "pattern_text p m" and ne: "v \<noteq> []" and semi: "CHR '';'' \<notin> set v"
    by (auto simp: value_at_def)
  from ne obtain c vs where v: "v = c # vs" by (cases v) auto
  with semi have "c \<noteq> CHR '';''" by auto
  then show "occurs p s"
    unfolding occurs_def using s pm v by (intro exI[of _ pre] exI[of _ m] exI[of _ c] exI[of _ "vs @ post"]) simp
qed

lemma regex_match_None: "regex_match p s = None \<longleftrightarrow> \<not> occurs p s"
proof (induction s)
  case Nil
  have "match_here p [] = None \<longleftrightarrow> (\<forall>v. \<not> value_at p [] [] v)"
    by (metis match_here_iff not_Some_eq)
  then show ?case by (simp add: occurs_iff_value value_at_Nil)
next
  case (Cons c cs)
  have h: "match_here p (c # cs) = None \<longleftrightarrow> (\<forall>v. \<not> value_at p (c # cs) [] v)"
    by (metis match_here_iff not_Some_eq)
  show ?case
  proof (cases "match_here p (c # cs)")
    case None
    have "(\<exists>pre v. value_at p (c # cs) pre v) \<longleftrightarrow> (\<exists>pre v. value_at p cs pre v)"
    proof
      assume "\<exists>pre v. value_at p (c # cs) pre v"
      then obtain pre v where pv: "value_at p (c # cs) pre v" by blast
      with None h obtain q where "pre = c # q" "value_at p cs q v"
        by (cases pre) (auto simp: value_at_Cons)
      then show "\<exists>pre v. value_at p cs pre v" by blast
    next
      assume "\<exists>pre v. value_at p cs pre v"
      then obtain pre v where "value_at p cs pre v" by blast
      then have "value_at p (c # cs) (c # pre) v" by (simp add: value_at_Cons)
      then show "\<exists>pre v. value_at p (c # cs) pre v" by blast
    qed
    with None Cons.IH show ?thesis by (simp add: occurs_iff_value)
  next
    case (Some w)
    then have "value_at p (c # cs) [] w" by (simp add: match_here_iff)
    then have "occurs p (c # cs)" unfolding occurs_iff_value by blast
    with Some show ?thesis by simp
  qed
qed

lemma value_at_nonempty: "value_at p s pre v \<Longrightarrow> v \<noteq> [] \<and> CHR '';'' \<notin> set v"
  by (auto simp: value_at_def)

lemma leftmost_value_nonempty: "leftmost_value p s v \<Longrightarrow> v \<noteq> [] \<and> CHR '';'' \<notin> set v"
  by (auto simp: leftmost_value_def dest: value_at_nonempty)

lemma try_names_None:
  "try_names ns s = None \<longleftrightarrow> (\<forall>n\<in>set ns. \<not> occurs (compile_name n) s)"
proof (induction ns)
  case Nil
  then show ?case by simp
next
  case (Cons n ns)
  show ?case
  proof (cases "regex_match (compile_name n) s")
    case None
    then have "\<not> occurs (compile_name n) s" by (simp add: regex_match_None)
    with Cons None show ?thesis by simp
  next
    case (Some v)
    then have "v \<noteq> []" using regex_match_leftmost leftmost_value_nonempty by blast
    moreover from Some have "occurs (compile_name n) s"
      using regex_match_None[of "compile_name n" s] by simp
    ultimately show ?thesis using Some by simp
  qed
qed

lemma try_names_Some:
  "try_names ns s = Some v \<Longrightarrow>
     \<exists>i<length ns. leftmost_value (compile_name (ns ! i)) s v
        \<and> (\<forall>j<i. \<not> occurs (compile_name (ns ! j)) s)"
proof (induction ns)
  case Nil
  then show ?case by simp
next
  case (Cons n ns)
  show ?case
  proof (cases "regex_match (compile_name n) s")
    case None
    with Cons.prems have "try_names ns s = Some v" by simp
    then obtain i where i: "i < length ns" "leftmost_value (compile_name (ns ! i)) s v"
      "\<forall>j<i. \<not> occurs (compile_name (ns ! j)) s"
      using Cons.IH by blast
    have no: "\<not> occurs (compile_name n) s" using None by (simp add: regex_match_None)
    have "\<forall>j<Suc i. \<not> occurs (compile_name ((n # ns) ! j)) s"
      using i(3) no by (auto simp: less_Suc_eq_0_disj)
    with i(1,2) show ?thesis by (intro exI[of _ "Suc i"]) simp
  next
    case (Some w)
    then have lw: "leftmost_value (compile_name n) s w" by (rule regex_match_leftmost)
    then have "w \<noteq> []" using leftmost_value_nonempty by blast
    with Some Cons.prems have "w = v" by simp
    with lw show ?thesis by (intro exI[of _ 0]) simp
  qed
qed

lemma occurs_Nil: "\<not> occurs p []"
  by (simp add: occurs_def)

lemma try_names_nonempty: "try_names ns s = Some v \<Longrightarrow> v \<noteq> []"
  by (induction ns) (auto split: option.splits if_splits)

lemma extract_nonempty: "extractSessionToken s = Some v \<Longrightarrow> v \<noteq> []"
  by (auto simp: extractSessionToken_def split: if_splits dest: try_names_nonempty)

lemma pattern_text_same_length: "pattern_text p m \<Longrightarrow> pattern_text p m' \<Longrightarrow> length m = length m'"
  by (simp add: pattern_text_def list_all2_lengthD[symmetric])

lemma value_at_unique:
  assumes a: "value_at p s pre v" and b: "value_at p s pre' v'" and len: "length pre = length pre'"
  shows "v = v'"
proof -
  from a obtain m post where s: "s = pre @ m @ CHR ''='' # v @ post" and pm: "pattern_text p m"
    and sv: "CHR '';'' \<notin> set v" and post: "post = [] \<or> hd post = CHR '';''"
    by (auto simp: value_at_def)
  from b obtain m' post' where s': "s = pre' @ m' @ CHR ''='' # v' @ post'" and pm': "pattern_text p m'"
    and sv': "CHR '';'' \<notin> set v'" and post': "post' = [] \<or> hd post' = CHR '';''"
    by (auto simp: value_at_def)
  from s s' len have "m @ CHR ''='' # v @ post = m' @ CHR ''='' # v' @ post'" by simp
  moreover have "length m = length m'" using pm pm' by (rule pattern_text_same_length)
  ultimately have "v @ post = v' @ post'" by simp
  then have "takeWhile (\<lambda>c. c \<noteq> CHR '';'') (v @ post) = takeWhile (\<lambda>c. c \<noteq> CHR '';'') (v' @ post')"
    by simp
  then show ?thesis using takeWhile_value[OF sv post] takeWhile_value[OF sv' post'] by simp
qed

lemma leftmost_value_unique: "leftmost_value p s v \<Longrightarrow> leftmost_value p s v' \<Longrightarrow> v = v'"
proof -
  assume "leftmost_value p s v" and "leftmost_value p s v'"
  then obtain pre pre' where a: "value_at p s pre v"
    and la: "\<forall>q w. value_at p s q w \<longrightarrow> length pre \<le> length q"
    and b: "value_at p s pre' v'"
    and lb: "\<forall>q w. value_at p s q w \<longrightarrow> length pre' \<le> length q"
    unfolding leftmost_value_def by blast
  from la b have "length pre \<le> length pre'" by blast
  moreover from lb a have "length pre' \<le> length pre" by blast
  ultimately have "length pre = length pre'" by simp
  then show ?thesis using value_at_unique[OF a b] by simp
qed

lemma regex_match_iff: "regex_match p s = Some v \<longleftrightarrow> leftmost_value p s v"
proof
  assume "regex_match p s = Some v"
  then show "leftmost_value p s v" by (rule regex_match_leftmost)
next
  assume l: "leftmost_value p s v"
  then have "occurs p s" unfolding occurs_iff_value leftmost_value_def by blast
  then obtain w where w: "regex_match p s = Some w"
    using regex_match_None[of p s] by (cases "regex_match p s") auto
  then have "leftmost_value p s w" by (rule regex_match_leftmost)
  then have "w = v" using l by (rule leftmost_value_unique)
  with w show "regex_match p s = Some v" by simp
qed

subsection \<open>Priority of the names and empty values\<close>

text \<open>
  C9, as amended. For every cookie header: the extractor is a total function and yields
  nothing for the empty header; it yields nothing exactly when none of the three names
  occurs followed by \<open>=\<close> and a character other than \<open>;\<close>; and a value it yields is not
  empty, contains no \<open>;\<close> and is the value of the leftmost such occurrence of the first
  name in priority order that has one, every name before it having no such occurrence.
  So a name whose occurrences all carry an empty value counts as unmatched and the next
  name is tried. The value is taken as it stands: nothing is trimmed.
\<close>

theorem extractSessionToken_characterised:
  "extractSessionToken [] = None
   \<and> (extractSessionToken s = None \<longleftrightarrow> (\<forall>n\<in>set sessionCookieNames. \<not> occurs (compile_name n) s))
   \<and> (\<forall>v. extractSessionToken s = Some v \<longrightarrow>
         v \<noteq> [] \<and> CHR '';'' \<notin> set v
         \<and> (\<exists>i<length sessionCookieNames.
               leftmost_value (compile_name (sessionCookieNames ! i)) s v
               \<and> (\<forall>j<i. \<not> occurs (compile_name (sessionCookieNames ! j)) s)))"
proof (intro conjI allI impI)
  show "extractSessionToken [] = None" by (simp add: extractSessionToken_def)
next
  show "extractSessionToken s = None \<longleftrightarrow> (\<forall>n\<in>set sessionCookieNames. \<not> occurs (compile_name n) s)"
  proof (cases "s = []")
    case True
    then show ?thesis by (simp add: extractSessionToken_def occurs_Nil)
  next
    case False
    then show ?thesis by (simp add: extractSessionToken_def try_names_None)
  qed
next
  fix v
  assume a: "extractSessionToken s = Some v"
  then have t: "try_names sessionCookieNames s = Some v"
    by (simp add: extractSessionToken_def split: if_splits)
  from try_names_Some[OF t] obtain i where i: "i < length sessionCookieNames"
    "leftmost_value (compile_name (sessionCookieNames ! i)) s v"
    "\<forall>j<i. \<not> occurs (compile_name (sessionCookieNames ! j)) s"
    by blast
  from i(2) show "v \<noteq> []" using leftmost_value_nonempty by blast
  from i(2) show "CHR '';'' \<notin> set v" using leftmost_value_nonempty by blast
  from i show "\<exists>i<length sessionCookieNames.
               leftmost_value (compile_name (sessionCookieNames ! i)) s v
               \<and> (\<forall>j<i. \<not> occurs (compile_name (sessionCookieNames ! j)) s)" by blast
qed

text \<open>
  The header of the test for malformed cookies extended by a bare \<open>session\<close> cookie, and
  a header without any session cookie.
\<close>

theorem extractSessionToken_characterised_witness:
  "extractSessionToken ''session_token=; session=abc'' = Some ''abc''
   \<and> ''abc'' \<noteq> [] \<and> CHR '';'' \<notin> set ''abc''
   \<and> extractSessionToken ''other_cookie=value; another=test'' = None
   \<and> \<not> occurs (compile_name ''better-auth.session_token'') ''other_cookie=value; another=test''
   \<and> \<not> occurs (compile_name ''session_token'') ''other_cookie=value; another=test''
   \<and> \<not> occurs (compile_name ''session'') ''other_cookie=value; another=test''"
proof -
  have a: "extractSessionToken ''session_token=; session=abc'' = Some ''abc''"
    by (simp add: extractSessionToken_def sessionCookieNames_def compile_name_def match_here_def)
  have b: "extractSessionToken ''other_cookie=value; another=test'' = None"
    by (simp add: extractSessionToken_def sessionCookieNames_def compile_name_def match_here_def)
  from a extractSessionToken_characterised[of "''session_token=; session=abc''"]
  have "''abc'' \<noteq> [] \<and> CHR '';'' \<notin> set ''abc''" by blast
  moreover from b extractSessionToken_characterised[of "''other_cookie=value; another=test''"]
  have "\<forall>n\<in>set sessionCookieNames. \<not> occurs (compile_name n) ''other_cookie=value; another=test''"
    by blast
  then have "\<not> occurs (compile_name ''better-auth.session_token'') ''other_cookie=value; another=test''
      \<and> \<not> occurs (compile_name ''session_token'') ''other_cookie=value; another=test''
      \<and> \<not> occurs (compile_name ''session'') ''other_cookie=value; another=test''"
    by (simp add: sessionCookieNames_def)
  ultimately show ?thesis using a b by blast
qed

text \<open>
  C9 as stated fails for the header \<open>session_token= ; session=abc\<close>: the value captured for
  \<open>session_token\<close> is one blank, empty after trimming, yet it is returned and the name
  \<open>session\<close> is never tried.
\<close>

theorem extractSessionToken_blank_value_counterexample:
  "extractSessionToken ''session_token= ; session=abc'' = Some '' '' \<and> trim '' '' = []"
  by (simp add: extractSessionToken_def sessionCookieNames_def compile_name_def match_here_def
        line_terminator_def trim_def is_space_def)

subsection \<open>The namespaced name and the dot\<close>

text \<open>
  Read as regular expressions, the names have the priority the specification gives them,
  whatever their order in the header: the leftmost value of the namespaced expression is
  returned whenever there is one, and otherwise that of \<open>session_token\<close>.
\<close>

lemma namespaced_value_first:
  "leftmost_value (compile_name ''better-auth.session_token'') s v \<Longrightarrow> extractSessionToken s = Some v"
proof -
  assume l: "leftmost_value (compile_name ''better-auth.session_token'') s v"
  then have r: "regex_match (compile_name ''better-auth.session_token'') s = Some v"
    by (simp add: regex_match_iff)
  from l have "v \<noteq> []" using leftmost_value_nonempty by blast
  moreover from l have "s \<noteq> []" by (auto simp: leftmost_value_def value_at_def)
  ultimately show ?thesis using r by (simp add: extractSessionToken_def sessionCookieNames_def)
qed

lemma generic_value_second:
  "\<not> occurs (compile_name ''better-auth.session_token'') s \<Longrightarrow>
     leftmost_value (compile_name ''session_token'') s v \<Longrightarrow> extractSessionToken s = Some v"
proof -
  assume n: "\<not> occurs (compile_name ''better-auth.session_token'') s"
    and l: "leftmost_value (compile_name ''session_token'') s v"
  from n have r1: "regex_match (compile_name ''better-auth.session_token'') s = None"
    by (simp add: regex_match_None)
  from l have r2: "regex_match (compile_name ''session_token'') s = Some v"
    by (simp add: regex_match_iff)
  from l have "v \<noteq> []" using leftmost_value_nonempty by blast
  moreover from l have "s \<noteq> []" by (auto simp: leftmost_value_def value_at_def)
  ultimately show ?thesis using r1 r2 by (simp add: extractSessionToken_def sessionCookieNames_def)
qed

text \<open>
  C4. The header holds the namespaced cookie with value \<open>good\<close> and the generic cookie
  with value \<open>generic\<close>, preceded by a cookie whose name differs from the namespaced name
  in the place of the dot. The extractor returns the value of that first cookie: the dot
  of \<open>better-auth.session_token\<close> is not escaped in the regular expression and matches
  the letter \<open>X\<close>.
\<close>

theorem extractSessionToken_unescaped_dot:
  "extractSessionToken
     ''better-authXsession_token=evil; better-auth.session_token=good; session_token=generic''
   = Some ''evil''"
  by (simp add: extractSessionToken_def sessionCookieNames_def compile_name_def match_here_def
        line_terminator_def)


section \<open>Properties of the session cache\<close>

subsection \<open>Looking up after set and get\<close>

lemma find_append_case:
  "List.find P (xs @ ys) = (case List.find P xs of None \<Rightarrow> List.find P ys | Some x \<Rightarrow> Some x)"
  by (induction xs) auto

lemma find_without: "List.find (\<lambda>e. ekey e = k) (without k es) = None"
  by (simp add: without_def find_None_iff)

lemma find_tl_None: "List.find P es = None \<Longrightarrow> List.find P (tl es) = None"
  by (cases es) (auto split: if_splits)

lemma lookup_Some_key: "lru_lookup c k = Some e \<Longrightarrow> ekey e = k"
  by (auto simp: lru_lookup_def find_Some_iff)

lemma lookup_after_set:
  "lru_lookup (lru_set c k v now) k = Some \<lparr>ekey = k, evalue = v, estart = now\<rparr>"
  by (cases "lru_lookup c k")
     (auto simp: lru_set_def lru_lookup_def Let_def find_append_case find_without find_tl_None)

lemma lookup_after_fresh_get:
  "lru_lookup c k = Some e \<Longrightarrow> \<not> isStale c e now \<Longrightarrow>
     lru_lookup (snd (lru_get c k now)) k
       = Some (if opt_updateAgeOnGet c then e\<lparr>estart := now\<rparr> else e)"
proof -
  assume l: "lru_lookup c k = Some e" and f: "\<not> isStale c e now"
  have k: "ekey e = k" using l by (rule lookup_Some_key)
  have g: "snd (lru_get c k now)
             = c\<lparr>items := without k (items c)
                          @ [if opt_updateAgeOnGet c then e\<lparr>estart := now\<rparr> else e]\<rparr>"
    using l f by (simp add: lru_get_def)
  show ?thesis unfolding g by (simp add: lru_lookup_def find_append_case find_without k)
qed

lemma get_keeps_options:
  "opt_ttl (snd (lru_get c k now)) = opt_ttl c"
  "opt_max (snd (lru_get c k now)) = opt_max c"
  "opt_allowStale (snd (lru_get c k now)) = opt_allowStale c"
  "opt_updateAgeOnGet (snd (lru_get c k now)) = opt_updateAgeOnGet c"
  by (auto simp: lru_get_def split: option.splits)

lemma set_keeps_options:
  "opt_ttl (lru_set c k v now) = opt_ttl c"
  "opt_max (lru_set c k v now) = opt_max c"
  "opt_allowStale (lru_set c k v now) = opt_allowStale c"
  "opt_updateAgeOnGet (lru_set c k v now) = opt_updateAgeOnGet c"
  by (auto simp: lru_set_def Let_def split: option.splits)

lemma get_all_keeps_options:
  "opt_ttl (get_all c k ts) = opt_ttl c \<and> opt_allowStale (get_all c k ts) = opt_allowStale c
   \<and> opt_updateAgeOnGet (get_all c k ts) = opt_updateAgeOnGet c"
  by (induction ts arbitrary: c) (simp_all add: cache_get_def get_keeps_options)

lemma get_all_lookup:
  "lru_lookup c k = Some e \<Longrightarrow> opt_updateAgeOnGet c \<Longrightarrow> each_within (opt_ttl c) (estart e) ts \<Longrightarrow>
     lru_lookup (get_all c k ts) k = Some (e\<lparr>estart := last (estart e # ts)\<rparr>)"
proof (induction ts arbitrary: c e)
  case Nil
  then show ?case by simp
next
  case (Cons t ts)
  from Cons.prems have fresh: "\<not> isStale c e t" by (simp add: isStale_def)
  let ?c = "snd (lru_get c k t)"
  have l: "lru_lookup ?c k = Some (e\<lparr>estart := t\<rparr>)"
    using lookup_after_fresh_get[OF Cons.prems(1) fresh] Cons.prems(2) by simp
  have "lru_lookup (get_all ?c k ts) k = Some (e\<lparr>estart := t\<rparr>\<lparr>estart := last (estart (e\<lparr>estart := t\<rparr>) # ts)\<rparr>)"
    using Cons.prems by (intro Cons.IH[OF l]) (simp_all add: get_keeps_options)
  then show ?case by (simp add: cache_get_def)
qed

text \<open>What one get or has does to an entry, given the time of its last refresh.\<close>

lemma has_iff:
  "lru_lookup c k = Some e \<Longrightarrow> opt_ttl c \<noteq> 0 \<Longrightarrow>
     cache_has c k now \<longleftrightarrow> now \<le> estart e + opt_ttl c"
  by (auto simp: cache_has_def lru_has_def isStale_def)

lemma get_fresh:
  "lru_lookup c k = Some e \<Longrightarrow> now \<le> estart e + opt_ttl c \<Longrightarrow>
     fst (cache_get c k now) = Some (evalue e) \<and> last (cache_keys (snd (cache_get c k now))) = k"
  by (auto simp: cache_get_def lru_get_def isStale_def cache_keys_def dest: lookup_Some_key)

lemma get_stale:
  "lru_lookup c k = Some e \<Longrightarrow> opt_ttl c \<noteq> 0 \<Longrightarrow> estart e + opt_ttl c < now \<Longrightarrow>
     \<not> opt_allowStale c \<Longrightarrow>
     fst (cache_get c k now) = None \<and> k \<notin> set (cache_keys (snd (cache_get c k now)))"
  by (auto simp: cache_get_def lru_get_def isStale_def cache_keys_def without_def)

lemma SessionCache_new_options:
  "SessionCache_new maxN (Some ttlS) = Inr cnew \<Longrightarrow>
     opt_ttl cnew = ttlS * 1000 \<and> opt_updateAgeOnGet cnew \<and> \<not> opt_allowStale cnew
     \<and> opt_max cnew = (case maxN of None \<Rightarrow> 1000 | Some m \<Rightarrow> m) \<and> items cnew = []"
  by (auto simp: SessionCache_new_def LRUCache_new_def split: if_splits)

subsection \<open>Expiry\<close>

text \<open>
  C3, as amended. For every entry put into a \<open>SessionCache\<close> of time-to-live \<open>ttlS > 0\<close>
  seconds at time \<open>tset\<close> and then read by any number of gets, each at most the
  time-to-live after the one before it: every such get restarts the age of the entry, so
  the entry expires one time-to-live after the last of them. Up to that instant \<open>has\<close>
  answers true and \<open>get\<close> returns the value and makes the entry the most recently used
  one; after it \<open>has\<close> answers false and \<open>get\<close> returns nothing and removes the entry.
\<close>

theorem get_restarts_time_to_live:
  assumes new: "SessionCache_new maxN (Some ttlS) = Inr cnew" and pos: "0 < ttlS"
    and c: "c = get_all (cache_set (cnew\<lparr>items := es\<rparr>) k v tset) k ts"
    and chain: "each_within (ttlS * 1000) tset ts"
    and expiry: "expiry = last (tset # ts) + ttlS * 1000"
  shows "(now \<le> expiry \<longrightarrow>
            cache_has c k now \<and> fst (cache_get c k now) = Some v
            \<and> last (cache_keys (snd (cache_get c k now))) = k)
       \<and> (expiry < now \<longrightarrow>
            \<not> cache_has c k now \<and> fst (cache_get c k now) = None
            \<and> k \<notin> set (cache_keys (snd (cache_get c k now))))"
proof -
  let ?c1 = "cache_set (cnew\<lparr>items := es\<rparr>) k v tset"
  let ?e = "\<lparr>ekey = k, evalue = v, estart = tset\<rparr>"
  from SessionCache_new_options[OF new]
  have o1: "opt_ttl ?c1 = ttlS * 1000" "opt_updateAgeOnGet ?c1" "\<not> opt_allowStale ?c1"
    by (simp_all add: cache_set_def set_keeps_options)
  have l1: "lru_lookup ?c1 k = Some ?e" by (simp add: cache_set_def lookup_after_set)
  have l: "lru_lookup c k = Some (?e\<lparr>estart := last (tset # ts)\<rparr>)"
    unfolding c using get_all_lookup[OF l1 o1(2)] chain o1(1) by simp
  have o: "opt_ttl c = ttlS * 1000" "\<not> opt_allowStale c"
    unfolding c using get_all_keeps_options[of ?c1 k ts] o1 by simp_all
  have nz: "opt_ttl c \<noteq> 0" using o pos by simp
  show ?thesis
    using has_iff[OF l nz, of now] get_fresh[OF l, of now] get_stale[OF l nz _ o(2), of now]
    by (auto simp: o expiry)
qed

text \<open>A time-to-live of one second: set at 0, get at 600, then has and get at 1200 and 1601.\<close>

theorem get_restarts_time_to_live_witness:
  "cache_has (get_all (cache_set (small_cache\<lparr>items := []\<rparr>) ''abc123'' scenario_context 0)
                ''abc123'' [600]) ''abc123'' 1200
   \<and> fst (cache_get (get_all (cache_set (small_cache\<lparr>items := []\<rparr>) ''abc123'' scenario_context 0)
                ''abc123'' [600]) ''abc123'' 1200) = Some scenario_context
   \<and> \<not> cache_has (get_all (cache_set (small_cache\<lparr>items := []\<rparr>) ''abc123'' scenario_context 0)
                ''abc123'' [600]) ''abc123'' 1601"
proof -
  have new: "SessionCache_new (Some 2) (Some 1) = Inr small_cache"
    by (simp add: SessionCache_new_def LRUCache_new_def small_cache_def)
  have pos: "(0::nat) < 1" by simp
  have chain: "each_within (1 * 1000) 0 [600]" by simp
  have expiry: "(1600::nat) = last (0 # [600]) + 1 * 1000" by simp
  note T = get_restarts_time_to_live[where es = "[]" and k = "''abc123''" and v = scenario_context,
             OF new pos refl chain expiry]
  from T[of 1200] T[of 1601] show ?thesis by simp
qed

text \<open>
  C3 as stated fails: the entry set at 0 with a time-to-live of 1000 milliseconds and
  read at 600 is still present at 1200, when its age since insertion exceeds the
  time-to-live. The get at 600 has moved its expiry from 1000 to 1600. Without any get,
  the entry is still present at the instant 1000, when its age equals the time-to-live.
\<close>

theorem get_extends_expiry_counterexample:
  "SessionCache_new (Some 2) (Some 1) = Inr small_cache
   \<and> cache_has (snd (cache_get (cache_set small_cache ''abc123'' scenario_context 0) ''abc123'' 600))
        ''abc123'' 1200
   \<and> fst (cache_get (snd (cache_get (cache_set small_cache ''abc123'' scenario_context 0) ''abc123'' 600))
        ''abc123'' 1200) = Some scenario_context
   \<and> cache_has (cache_set small_cache ''abc123'' scenario_context 0) ''abc123'' 1000"
  by (simp add: SessionCache_new_def LRUCache_new_def small_cache_def cache_has_def cache_get_def
        cache_set_def lru_has_def lru_get_def lru_set_def lru_lookup_def isStale_def without_def)

subsection \<open>Eviction\<close>

lemma lookup_None_iff: "lru_lookup c k = None \<longleftrightarrow> k \<notin> set (cache_keys c)"
  by (auto simp: lru_lookup_def cache_keys_def find_None_iff)

lemma keys_set_new:
  "k \<notin> set (cache_keys c) \<Longrightarrow>
     cache_keys (cache_set c k v now)
       = (if length (cache_keys c) = opt_max c \<and> cache_keys c \<noteq> []
          then tl (cache_keys c) else cache_keys c) @ [k]"
proof -
  assume "k \<notin> set (cache_keys c)"
  then have "lru_lookup c k = None" by (simp add: lookup_None_iff)
  then show ?thesis
    by (simp add: cache_set_def lru_set_def Let_def cache_keys_def map_tl)
qed

lemma set_all_keys:
  "distinct (cache_keys c @ map fst kvs) \<Longrightarrow> length (cache_keys c) + length kvs \<le> opt_max c \<Longrightarrow>
     cache_keys (set_all c kvs) = cache_keys c @ map fst kvs \<and> opt_max (set_all c kvs) = opt_max c"
proof (induction kvs arbitrary: c)
  case Nil
  then show ?case by simp
next
  case (Cons x kvs)
  obtain k v now where x: "x = (k, v, now)" by (cases x)
  let ?c = "cache_set c k v now"
  from Cons.prems x have nk: "k \<notin> set (cache_keys c)" by auto
  from Cons.prems have "length (cache_keys c) \<noteq> opt_max c" by simp
  with nk have keys: "cache_keys ?c = cache_keys c @ [k]" by (simp add: keys_set_new)
  have mx: "opt_max ?c = opt_max c" by (simp add: cache_set_def set_keeps_options)
  have "cache_keys (set_all ?c kvs) = cache_keys ?c @ map fst kvs \<and> opt_max (set_all ?c kvs) = opt_max ?c"
    using Cons.prems x by (intro Cons.IH) (simp_all add: keys mx)
  then show ?case by (simp add: x keys mx)
qed

lemma has_lookup: "cache_has c k now \<Longrightarrow> \<exists>e. lru_lookup c k = Some e \<and> \<not> isStale c e now"
  by (auto simp: cache_has_def lru_has_def split: option.splits)

lemma keys_get_hit:
  "cache_has c k now \<Longrightarrow>
     cache_keys (snd (cache_get c k now)) = filter (\<lambda>x. x \<noteq> k) (cache_keys c) @ [k]"
proof -
  assume "cache_has c k now"
  then obtain e where l: "lru_lookup c k = Some e" and f: "\<not> isStale c e now"
    using has_lookup by blast
  have k: "ekey e = k" using l by (rule lookup_Some_key)
  show ?thesis
    using l f k by (simp add: cache_get_def lru_get_def cache_keys_def without_def filter_map comp_def)
qed

lemma length_filter_other:
  "distinct ks \<Longrightarrow> k \<in> set ks \<Longrightarrow> Suc (length (filter (\<lambda>x. x \<noteq> k) ks)) = length ks"
proof (induction ks)
  case Nil
  then show ?case by simp
next
  case (Cons a ks)
  show ?case
  proof (cases "a = k")
    case True
    with Cons.prems have "k \<notin> set ks" by simp
    then have "filter (\<lambda>x. x \<noteq> k) ks = ks" by (auto simp: filter_id_conv)
    with True show ?thesis by simp
  next
    case False
    with Cons show ?thesis by simp
  qed
qed

lemma SessionCache_new_empty:
  "SessionCache_new (Some N) ttlS = Inr cnew \<Longrightarrow> opt_max cnew = N \<and> items cnew = []"
  by (auto simp: SessionCache_new_def LRUCache_new_def split: if_splits)

lemma keys_get_stale:
  "k \<in> set (cache_keys c) \<Longrightarrow> \<not> cache_has c k now \<Longrightarrow>
     cache_keys (snd (cache_get c k now)) = filter (\<lambda>x. x \<noteq> k) (cache_keys c)"
proof -
  assume "k \<in> set (cache_keys c)" and miss: "\<not> cache_has c k now"
  then obtain e where l: "lru_lookup c k = Some e"
    using lookup_None_iff[of c k] by (cases "lru_lookup c k") auto
  with miss have "isStale c e now" by (simp add: cache_has_def lru_has_def)
  with l show ?thesis
    by (simp add: cache_get_def lru_get_def cache_keys_def without_def filter_map comp_def)
qed

text \<open>
  C5, as amended. For a \<open>SessionCache\<close> of capacity \<open>N\<close> filled with \<open>N\<close> distinct
  tokens: the cache holds them in the order of insertion; inserting one more distinct
  token evicts exactly the first inserted one and keeps all others. For \<open>N \<ge> 2\<close>, a get
  on one of the tokens before that insertion exempts it: if the get finds the entry
  unexpired, the entry becomes the most recently used one and the insertion evicts the
  least recently touched of the others; if the entry has expired, the get removes it and
  the insertion evicts nothing.
\<close>

theorem overflow_evicts_least_recently_used:
  assumes new: "SessionCache_new (Some N) ttlS = Inr cnew"
    and len: "length kvs = N" and dist: "distinct (map fst kvs)"
    and other: "k' \<notin> set (map fst kvs)" and c: "c = set_all cnew kvs"
  shows "cache_keys c = map fst kvs
       \<and> cache_keys (cache_set c k' v' now') = tl (map fst kvs) @ [k']
       \<and> (2 \<le> N \<and> k \<in> set (map fst kvs) \<longrightarrow>
            (cache_has c k now \<longrightarrow>
               cache_keys (cache_set (snd (cache_get c k now)) k' v' now')
                 = tl (filter (\<lambda>x. x \<noteq> k) (map fst kvs)) @ [k, k'])
          \<and> (\<not> cache_has c k now \<longrightarrow>
               cache_keys (cache_set (snd (cache_get c k now)) k' v' now')
                 = filter (\<lambda>x. x \<noteq> k) (map fst kvs) @ [k']))"
proof -
  from SessionCache_new_empty[OF new] have cnew: "opt_max cnew = N" "cache_keys cnew = []"
    by (simp_all add: cache_keys_def)
  have keys: "cache_keys c = map fst kvs" and mx: "opt_max c = N"
    using set_all_keys[of cnew kvs] cnew len dist by (simp_all add: c)
  have full: "cache_keys (cache_set c k' v' now') = tl (map fst kvs) @ [k']"
    using other keys mx len by (simp add: keys_set_new)
  let ?c1 = "snd (cache_get c k now)"
  let ?rest = "filter (\<lambda>x. x \<noteq> k) (map fst kvs)"
  have mx1: "opt_max ?c1 = N" using mx by (simp add: cache_get_def get_keeps_options)
  have touched: "cache_keys (cache_set ?c1 k' v' now') = tl ?rest @ [k, k']"
    if N2: "2 \<le> N" and kin: "k \<in> set (map fst kvs)" and hit: "cache_has c k now"
  proof -
    have k1: "cache_keys ?c1 = ?rest @ [k]" using keys_get_hit[OF hit] keys by simp
    have l: "Suc (length ?rest) = N" using length_filter_other[OF dist kin] len by simp
    have rne: "?rest \<noteq> []"
    proof
      assume e: "?rest = []"
      have "length ?rest = 0" by (simp only: e list.size)
      with l N2 show False by linarith
    qed
    have nk: "k' \<notin> set (cache_keys ?c1)" using other kin k1 by auto
    have len1: "length (cache_keys ?c1) = opt_max ?c1"
      unfolding k1 mx1 using l by (simp only: length_append list.size)
    have ne1: "cache_keys ?c1 \<noteq> []" unfolding k1 by simp
    have tl1: "tl (cache_keys ?c1) = tl ?rest @ [k]"
      unfolding k1 using rne by (rule tl_append2)
    have "cache_keys (cache_set ?c1 k' v' now') = tl (cache_keys ?c1) @ [k']"
      using keys_set_new[OF nk, of v' now'] len1 ne1 by (simp only: simp_thms if_True)
    then show ?thesis unfolding tl1 by (simp only: append_assoc append_Cons append_Nil)
  qed
  have expired: "cache_keys (cache_set ?c1 k' v' now') = ?rest @ [k']"
    if kin: "k \<in> set (map fst kvs)" and miss: "\<not> cache_has c k now"
  proof -
    have k1: "cache_keys ?c1 = ?rest" using keys_get_stale[of k c now] kin miss keys by simp
    have l: "Suc (length ?rest) = N" using length_filter_other[OF dist kin] len by simp
    have nk: "k' \<notin> set (cache_keys ?c1)" using other k1 by auto
    have len1: "length (cache_keys ?c1) \<noteq> opt_max ?c1"
      unfolding k1 mx1 using l by linarith
    show ?thesis
      using keys_set_new[OF nk, of v' now'] len1 unfolding k1 by (simp only: simp_thms if_False)
  qed
  from keys full touched expired show ?thesis by blast
qed

text \<open>The two tests of the LRU behaviour with a cache of two entries.\<close>

theorem overflow_evicts_least_recently_used_witness:
  "cache_keys (cache_set (set_all small_cache
                  [(''key1'', scenario_context, 0), (''key2'', scenario_context, 1)])
                ''key3'' scenario_context 3) = [''key2'', ''key3'']
   \<and> cache_has (set_all small_cache [(''key1'', scenario_context, 0), (''key2'', scenario_context, 1)])
        ''key1'' 2
   \<and> cache_keys (cache_set (snd (cache_get (set_all small_cache
                  [(''key1'', scenario_context, 0), (''key2'', scenario_context, 1)]) ''key1'' 2))
                ''key3'' scenario_context 3) = [''key1'', ''key3'']"
proof -
  let ?kvs = "[(''key1'', scenario_context, 0::nat), (''key2'', scenario_context, 1)]"
  have new: "SessionCache_new (Some 2) (Some 1) = Inr small_cache"
    by (simp add: SessionCache_new_def LRUCache_new_def small_cache_def)
  have hit: "cache_has (set_all small_cache ?kvs) ''key1'' 2"
    by (simp add: small_cache_def cache_has_def cache_set_def lru_has_def lru_set_def
          lru_lookup_def isStale_def)
  have len: "length ?kvs = 2" by simp
  have dist: "distinct (map fst ?kvs)" by simp
  have other: "''key3'' \<notin> set (map fst ?kvs)" by simp
  from overflow_evicts_least_recently_used[where v' = scenario_context and now' = 3
         and k = "''key1''" and now = 2, OF new len dist other refl] hit
  show ?thesis by simp
qed

text \<open>
  C5 as stated fails for capacity 1: the only entry is read by a successful get and is
  evicted all the same by the next insertion.
\<close>

theorem capacity_one_counterexample:
  "SessionCache_new (Some 1) (Some 1) = Inr (small_cache\<lparr>opt_max := 1\<rparr>)
   \<and> cache_has (cache_set (small_cache\<lparr>opt_max := 1\<rparr>) ''key1'' scenario_context 0) ''key1'' 1
   \<and> fst (cache_get (cache_set (small_cache\<lparr>opt_max := 1\<rparr>) ''key1'' scenario_context 0) ''key1'' 1)
       = Some scenario_context
   \<and> cache_keys (cache_set (snd (cache_get (cache_set (small_cache\<lparr>opt_max := 1\<rparr>)
                                               ''key1'' scenario_context 0) ''key1'' 1))
                   ''key2'' scenario_context 2) = [''key2'']"
  by (simp add: SessionCache_new_def LRUCache_new_def small_cache_def cache_has_def cache_get_def
        cache_set_def lru_has_def lru_get_def lru_set_def lru_lookup_def isStale_def without_def
        cache_keys_def)


section \<open>Properties of the orchestrator\<close>

text \<open>The middleware as it ships, with the methods of \<open>SessionCache\<close> written out.\<close>

lemma SessionCache_methods_apply:
  "method_has (SessionCache_methods rq) c key = cache_has c key (now_has rq)"
  "method_get (SessionCache_methods rq) c key = cache_get c key (now_get rq)"
  "method_set (SessionCache_methods rq) c key v = cache_set c key v (now_set rq)"
  by (simp_all add: SessionCache_methods_def)

lemma resolve_remote_unfold:
  "resolve_remote rq sessionToken sessionCache =
     (case getSession rq of
        Inl e \<Rightarrow> (Inl e, sessionCache, [GetSession])
      | Inr sessionResponse \<Rightarrow>
          (case (case error sessionResponse of
                   None \<Rightarrow> None
                 | Some e \<Rightarrow> if truthy_val e then Some e else None) of
             Some e \<Rightarrow> (Inl e, sessionCache, [GetSession])
           | None \<Rightarrow>
               (case data sessionResponse of
                  None \<Rightarrow> (Inl invalid_response, sessionCache, [GetSession])
                | Some d \<Rightarrow>
                    (case data_session d of
                       None \<Rightarrow> (Inl invalid_response, sessionCache, [GetSession])
                     | Some s \<Rightarrow>
                         (case data_user d of
                            None \<Rightarrow> (Inl invalid_response, sessionCache, [GetSession])
                          | Some u \<Rightarrow>
                              (let authContext = \<lparr>user = u, session = s\<rparr>;
                                   sessionCache' =
                                     (case sessionCache of
                                        None \<Rightarrow> None
                                      | Some c \<Rightarrow>
                                          Some (cache_set c sessionToken authContext (now_set rq)));
                                   (r, evs) = inject_and_continue rq authContext
                               in (r, sessionCache', GetSession # evs)))))))"
  unfolding resolve_remote_def resolve_remote_with_def SessionCache_methods_apply ..

lemma try_block_unfold:
  "try_block rq sessionCache =
     (case getHeaders rq of
        Inl e \<Rightarrow> (Inl e, sessionCache, [])
      | Inr cookie \<Rightarrow>
          (let cookieString = str_or cookie []
           in case extractSessionToken cookieString of
                None \<Rightarrow> (Inl (JsError ''No session token found''), sessionCache, [])
              | Some sessionToken \<Rightarrow>
                  if sessionToken = [] then
                    (Inl (JsError ''No session token found''), sessionCache, [])
                  else
                    (case sessionCache of
                       None \<Rightarrow> resolve_remote rq sessionToken None
                     | Some c \<Rightarrow>
                         if cache_has c sessionToken (now_has rq) then
                           (case cache_get c sessionToken (now_get rq) of
                              (Some cached, c') \<Rightarrow>
                                (let (r, evs) = inject_and_continue rq cached
                                 in (r, Some c', evs))
                            | (None, c') \<Rightarrow> resolve_remote rq sessionToken (Some c'))
                         else resolve_remote rq sessionToken (Some c))))"
  unfolding try_block_def try_block_with_def resolve_remote_def SessionCache_methods_apply ..

lemma middleware_unfold:
  "middleware options rq ctx sessionCache =
     (case try_block rq sessionCache of
        (Inr u, sessionCache', evs) \<Rightarrow> (Returned None, sessionCache', evs)
      | (Inl e, sessionCache', evs) \<Rightarrow> (catch_block options ctx e, sessionCache', evs))"
  unfolding middleware_def middleware_with_def try_block_def ..

lemma catch_block_Error:
  "catch_block options ctx (JsError msg) =
     (case onError options of
        Some hook \<Rightarrow>
          (case hook (JsError msg) ctx of
             Inl x \<Rightarrow> Thrown x
           | Inr r \<Rightarrow> Returned (Some r))
      | None \<Rightarrow> Returned (Some (createErrorResponse (JsError msg) ctx (createResponse options))))"
  by (simp add: catch_block_def log_error_text_def)

lemma scenario_token:
  "extractSessionToken ''better-auth.session_token=abc123; other=1'' = Some ''abc123''"
  by (simp add: extractSessionToken_def sessionCookieNames_def compile_name_def match_here_def
        line_terminator_def)

subsection \<open>Requests without a token\<close>

text \<open>
  C1, as amended. For every request whose headers hold no cookie header and with no error
  hook configured, the middleware makes no remote resolution call, leaves the cache as it
  is and returns the response built by the adapter for status 401 and the body
  \<open>{success: false, code: "UNAUTHORIZED", message: "No session token found"}\<close>.
\<close>

theorem missing_cookie_response:
  "getHeaders rq = Inr None \<Longrightarrow> onError options = None \<Longrightarrow>
     middleware options rq ctx sessionCache =
       (Returned (Some (createResponse options ctx
                          \<lparr>success = False, message = ''No session token found'',
                             code = ''UNAUTHORIZED''\<rparr> 401)),
        sessionCache, [])"
  by (simp add: middleware_unfold try_block_unfold extractSessionToken_def catch_block_Error
        createErrorResponse_def)

theorem missing_cookie_response_witness:
  "getHeaders (scenario_request\<lparr>getHeaders := Inr None\<rparr>) = Inr None
   \<and> onError scenario_options = None
   \<and> middleware scenario_options (scenario_request\<lparr>getHeaders := Inr None\<rparr>) () (Some scenario_cache)
      = (Returned (Some \<lparr>status = 401,
                         body = \<lparr>success = False, message = ''No session token found'',
                                  code = ''UNAUTHORIZED''\<rparr>\<rparr>),
         Some scenario_cache, [])"
  using missing_cookie_response[of "scenario_request\<lparr>getHeaders := Inr None\<rparr>" scenario_options
          "()" "Some scenario_cache"]
  by (simp add: scenario_options_def status_body_response_def)

text \<open>
  C1 as stated fails: the message of the response is that of the thrown \<open>Error\<close>, not
  \<open>Invalid or missing session\<close>.
\<close>

theorem missing_cookie_message_counterexample:
  "getHeaders (scenario_request\<lparr>getHeaders := Inr None\<rparr>) = Inr None
   \<and> onError scenario_options = None
   \<and> fst (middleware scenario_options (scenario_request\<lparr>getHeaders := Inr None\<rparr>) () None)
      = Returned (Some \<lparr>status = 401,
                        body = \<lparr>success = False, message = ''No session token found'',
                                 code = ''UNAUTHORIZED''\<rparr>\<rparr>)
   \<and> fst (middleware scenario_options (scenario_request\<lparr>getHeaders := Inr None\<rparr>) () None)
      \<noteq> Returned (Some \<lparr>status = 401,
                        body = \<lparr>success = False, message = ''Invalid or missing session'',
                                 code = ''UNAUTHORIZED''\<rparr>\<rparr>)"
  by (simp add: middleware_unfold try_block_unfold extractSessionToken_def catch_block_Error
        createErrorResponse_def scenario_options_def status_body_response_def)

subsection \<open>The failure path\<close>

text \<open>
  The argument of the log call of the \<open>catch\<close> block can be computed for every thrown
  value but an object that \<open>String\<close> cannot convert.
\<close>

lemma log_error_text_throws:
  "log_error_text e = Inl x \<longleftrightarrow> (\<exists>c m s. e = JsBareObject c m s) \<and> x = cannot_convert"
  by (cases e) (auto simp: log_error_text_def)

text \<open>
  Whenever the \<open>try\<close> block fails with an error \<open>e\<close> for which the log argument can be
  computed: with an error hook configured the result of the hook is the result of the
  middleware, and what the hook throws is thrown by the middleware; without a hook the
  middleware does not throw, and the result is the response the classifier builds from
  \<open>e\<close>, a body of \<open>success: false\<close>, a message and a code at some status.
\<close>

lemma logged_failure_goes_to_hook_or_classifier:
  assumes run: "try_block rq sessionCache = (Inl e, sc, evs)"
    and logged: "\<forall>c m s. e \<noteq> JsBareObject c m s"
  shows "(\<forall>hook. onError options = Some hook \<longrightarrow>
            middleware options rq ctx sessionCache
              = (case hook e ctx of Inl x \<Rightarrow> Thrown x | Inr r \<Rightarrow> Returned (Some r), sc, evs))
       \<and> (onError options = None \<longrightarrow>
            middleware options rq ctx sessionCache
              = (Returned (Some (createErrorResponse e ctx (createResponse options))), sc, evs)
            \<and> (\<exists>m c st. createErrorResponse e ctx (createResponse options)
                  = createResponse options ctx \<lparr>success = False, message = m, code = c\<rparr> st))"
proof -
  obtain logged_text where l: "log_error_text e = Inr logged_text"
    using logged log_error_text_throws[of e] by (cases "log_error_text e") auto
  have "\<exists>m c st. createErrorResponse e ctx (createResponse options)
                  = createResponse options ctx \<lparr>success = False, message = m, code = c\<rparr> st"
    unfolding createErrorResponse_def Let_def by blast
  with run l show ?thesis
    by (auto simp: middleware_unfold catch_block_def split: sum.splits)
qed

text \<open>
  Without a hook the middleware throws in one case only: the \<open>try\<close> block failed with an
  object that \<open>String\<close> cannot convert, and the \<open>TypeError\<close> of the log call is what is
  thrown.
\<close>

lemma middleware_throws_without_hook:
  assumes "onError options = None"
  shows "fst (middleware options rq ctx sessionCache) = Thrown x
           \<longleftrightarrow> (\<exists>c m s. fst (try_block rq sessionCache) = Inl (JsBareObject c m s))
                \<and> x = cannot_convert"
proof (cases "try_block rq sessionCache")
  case (fields r sc evs)
  show ?thesis
  proof (cases r)
    case (Inl e)
    with fields assms show ?thesis
      using log_error_text_throws[of e x]
      by (cases "log_error_text e") (auto simp: middleware_unfold catch_block_def)
  next
    case (Inr u)
    with fields show ?thesis by (simp add: middleware_unfold)
  qed
qed

text \<open>
  C7 fails on the code. When the remote resolver rejects with an object that \<open>String\<close>
  cannot convert (\<open>Object.create(null)\<close>), the log call of the \<open>catch\<close> block throws a
  \<open>TypeError\<close> and the middleware rejects with it: without a hook no response is built,
  although the classifier would build the response of status 401 from that error; with a
  hook configured the hook is not reached, although it would answer with status 403.
\<close>

theorem unprintable_error_escapes:
  "middleware scenario_options
      (scenario_request\<lparr>getSession := Inl (JsBareObject None None None)\<rparr>) () None
     = (Thrown cannot_convert, None, [GetSession])
   \<and> createErrorResponse (JsBareObject None None None) () (createResponse scenario_options)
     = \<lparr>status = 401,
        body = \<lparr>success = False, message = ''Invalid or missing session'',
                 code = ''UNAUTHORIZED''\<rparr>\<rparr>
   \<and> middleware (scenario_options\<lparr>onError := Some responding_hook\<rparr>)
      (scenario_request\<lparr>getSession := Inl (JsBareObject None None None)\<rparr>) () None
     = (Thrown cannot_convert, None, [GetSession])
   \<and> responding_hook (JsBareObject None None None) ()
     = Inr \<lparr>status = 403, body = \<lparr>success = False, message = ''custom'', code = ''error''\<rparr>\<rparr>"
  by (simp add: middleware_unfold try_block_unfold resolve_remote_unfold scenario_request_def
        scenario_token catch_block_def log_error_text_def createErrorResponse_def
        scenario_options_def status_body_response_def responding_hook_def)

subsection \<open>Responses of the remote resolver without user or session\<close>

lemma resolve_remote_lacking:
  assumes resp: "getSession rq = Inr resp"
    and lacks: "data resp = None \<or> (\<exists>d. data resp = Some d \<and> (data_user d = None \<or> data_session d = None))"
  shows "resolve_remote rq tok sessionCache
           = (Inl (case error resp of
                     None \<Rightarrow> invalid_response
                   | Some x \<Rightarrow> if truthy_val x then x else invalid_response),
              sessionCache, [GetSession])"
  using resp lacks
  by (auto simp: resolve_remote_unfold split: option.splits)

lemma get_shrinks: "set (items (snd (cache_get c k now))) \<subseteq> set (items c) \<or> fst (cache_get c k now) \<noteq> None"
  by (auto simp: cache_get_def lru_get_def without_def split: option.splits)

text \<open>
  A run that called the resolver and got a response lacking the user, the session or
  both made no other call, fails and writes nothing to the cache. The failure is the error
  object of the response when it carries one (the guard on \<open>sessionResponse.error\<close> comes
  first), and otherwise the error \<open>Invalid session response\<close>.
\<close>

lemma lacking_response_run:
  assumes resp: "getSession rq = Inr resp"
    and lacks: "data resp = None \<or> (\<exists>d. data resp = Some d \<and> (data_user d = None \<or> data_session d = None))"
    and run: "try_block rq sessionCache = (r, sc, evs)"
    and called: "GetSession \<in> set evs"
  shows "evs = [GetSession]
       \<and> r = Inl (case error resp of
                    None \<Rightarrow> invalid_response
                  | Some x \<Rightarrow> if truthy_val x then x else invalid_response)
       \<and> (sessionCache = None \<longrightarrow> sc = None)
       \<and> (\<forall>c. sessionCache = Some c \<longrightarrow> (\<exists>c'. sc = Some c' \<and> set (items c') \<subseteq> set (items c)))"
proof -
  let ?e = "case error resp of None \<Rightarrow> invalid_response
            | Some x \<Rightarrow> if truthy_val x then x else invalid_response"
  have rr: "resolve_remote rq tok sc0 = (Inl ?e, sc0, [GetSession])" for tok sc0
    using resolve_remote_lacking[OF resp lacks] .
  show ?thesis
  proof (cases "getHeaders rq")
    case (Inl e)
    with run called show ?thesis by (simp add: try_block_unfold)
  next
    case (Inr ck)
    show ?thesis
    proof (cases "extractSessionToken (str_or ck [])")
      case None
      with run called Inr show ?thesis by (auto simp: try_block_unfold)
    next
      case (Some tok)
      show ?thesis
      proof (cases "tok = []")
        case True
        with run called Inr Some show ?thesis by (auto simp: try_block_unfold)
      next
        case ne: False
        show ?thesis
        proof (cases sessionCache)
          case None
          with run Inr Some ne rr show ?thesis by (auto simp: try_block_unfold)
        next
          case sc: (Some c)
          show ?thesis
          proof (cases "cache_has c tok (now_has rq)")
            case False
            with run Inr Some ne sc rr show ?thesis by (auto simp: try_block_unfold)
          next
            case True
            obtain g c' where g: "cache_get c tok (now_get rq) = (g, c')"
              by (cases "cache_get c tok (now_get rq)")
            show ?thesis
            proof (cases g)
              case None
              have "set (items c') \<subseteq> set (items c)"
                using get_shrinks[of c tok "now_get rq"] g None by simp
              with run Inr Some ne sc True g None rr show ?thesis by (auto simp: try_block_unfold)
            next
              case (Some a)
              with run Inr \<open>extractSessionToken (str_or ck []) = Some tok\<close> ne sc True g
              have "evs = [SetContextUser (user a), SetContextSession (session a), Next]"
                by (auto simp: try_block_unfold inject_and_continue_def)
              with called show ?thesis by simp
            qed
          qed
        qed
      qed
    qed
  qed
qed

text \<open>
  C6. For every response of the remote resolver without an error object that lacks the
  user, the session or both, a run that called the resolver made no other call (nothing
  is injected, the continuation is not invoked), fails with the error
  \<open>Invalid session response\<close> and writes nothing to the cache: the entries of the cache
  afterwards are entries it held before. Without an error hook the middleware returns the
  response of status 401 with that message and the code \<open>UNAUTHORIZED\<close>.
\<close>

theorem lacking_response_fails:
  assumes resp: "getSession rq = Inr resp"
    and noerr: "error resp = None \<or> (\<exists>x. error resp = Some x \<and> \<not> truthy_val x)"
    and lacks: "data resp = None \<or> (\<exists>d. data resp = Some d \<and> (data_user d = None \<or> data_session d = None))"
    and run: "try_block rq sessionCache = (r, sc, evs)"
    and called: "GetSession \<in> set evs"
  shows "evs = [GetSession]
       \<and> r = Inl invalid_response
       \<and> (sessionCache = None \<longrightarrow> sc = None)
       \<and> (\<forall>c. sessionCache = Some c \<longrightarrow> (\<exists>c'. sc = Some c' \<and> set (items c') \<subseteq> set (items c)))
       \<and> (onError options = None \<longrightarrow>
            middleware options rq ctx sessionCache
              = (Returned (Some (createResponse options ctx
                                   \<lparr>success = False, message = ''Invalid session response'',
                                      code = ''UNAUTHORIZED''\<rparr> 401)),
                 sc, [GetSession]))"
proof -
  have e: "(case error resp of None \<Rightarrow> invalid_response
            | Some x \<Rightarrow> if truthy_val x then x else invalid_response) = invalid_response"
    using noerr by auto
  from lacking_response_run[OF resp lacks run called] e
  have main: "evs = [GetSession]" "r = Inl invalid_response" "sessionCache = None \<longrightarrow> sc = None"
    "\<forall>c. sessionCache = Some c \<longrightarrow> (\<exists>c'. sc = Some c' \<and> set (items c') \<subseteq> set (items c))"
    by simp_all
  have "middleware options rq ctx sessionCache
          = (Returned (Some (createResponse options ctx
                               \<lparr>success = False, message = ''Invalid session response'',
                                  code = ''UNAUTHORIZED''\<rparr> 401)),
             sc, [GetSession])"
    if "onError options = None"
    using that run main(1,2)
    by (simp add: middleware_unfold invalid_response_def catch_block_Error createErrorResponse_def)
  with main show ?thesis by blast
qed

text \<open>
  The response \<open>{data: null}\<close> of the test suite, on a cache that holds an entry for
  another token: the entry is still there and nothing was added.
\<close>

theorem lacking_response_fails_witness:
  "getSession (scenario_request\<lparr>getSession := Inr \<lparr>data = None, error = None\<rparr>\<rparr>)
     = Inr \<lparr>data = None, error = None\<rparr>
   \<and> try_block (scenario_request\<lparr>getSession := Inr \<lparr>data = None, error = None\<rparr>\<rparr>)
        (Some (cache_set scenario_cache ''other'' scenario_context 1))
     = (Inl invalid_response, Some (cache_set scenario_cache ''other'' scenario_context 1),
        [GetSession])
   \<and> cache_keys (cache_set scenario_cache ''other'' scenario_context 1) = [''other'']
   \<and> middleware scenario_options
        (scenario_request\<lparr>getSession := Inr \<lparr>data = None, error = None\<rparr>\<rparr>) ()
        (Some (cache_set scenario_cache ''other'' scenario_context 1))
     = (Returned (Some \<lparr>status = 401,
                        body = \<lparr>success = False, message = ''Invalid session response'',
                                 code = ''UNAUTHORIZED''\<rparr>\<rparr>),
        Some (cache_set scenario_cache ''other'' scenario_context 1), [GetSession])"
proof -
  let ?rq = "scenario_request\<lparr>getSession := Inr \<lparr>data = None, error = None\<rparr>\<rparr>"
  let ?resp = "\<lparr>data = None, error = None\<rparr> :: BetterAuthSessionResponse"
  let ?c = "cache_set scenario_cache ''other'' scenario_context 1"
  have resp: "getSession ?rq = Inr ?resp" by simp
  have noerr: "error ?resp = None \<or> (\<exists>x. error ?resp = Some x \<and> \<not> truthy_val x)" by simp
  have lacks: "data ?resp = None \<or> (\<exists>d. data ?resp = Some d \<and> (data_user d = None \<or> data_session d = None))"
    by simp
  have miss: "\<not> cache_has ?c ''abc123'' 5"
    by (simp add: cache_has_def lru_has_def lru_lookup_def cache_set_def lru_set_def
          scenario_cache_def without_def)
  have run: "try_block ?rq (Some ?c) = (Inl invalid_response, Some ?c, [GetSession])"
    using miss
    by (simp add: try_block_unfold resolve_remote_unfold scenario_request_def scenario_token)
  have called: "GetSession \<in> set [GetSession]" by simp
  have n: "onError scenario_options = None" by (simp add: scenario_options_def)
  have keys: "cache_keys ?c = [''other'']"
    by (simp add: cache_keys_def cache_set_def lru_set_def lru_lookup_def scenario_cache_def)
  from lacking_response_fails[OF resp noerr lacks run called, of scenario_options "()"] n
  have "middleware scenario_options ?rq () (Some ?c)
          = (Returned (Some (createResponse scenario_options ()
                               \<lparr>success = False, message = ''Invalid session response'',
                                  code = ''UNAUTHORIZED''\<rparr> 401)),
             Some ?c, [GetSession])"
    by simp
  with resp run keys show ?thesis
    by (simp add: scenario_options_def status_body_response_def)
qed

subsection \<open>Cache hits\<close>

lemma cache_hit_run:
  assumes hd: "getHeaders rq = Inr ck" and tok: "extractSessionToken (str_or ck []) = Some tok"
    and has: "cache_has c tok (now_has rq)" and get: "fst (cache_get c tok (now_get rq)) = Some a"
    and nx: "next_result rq = None"
  shows "middleware options rq ctx (Some c)
           = (Returned None, Some (snd (cache_get c tok (now_get rq))),
              [SetContextUser (user a), SetContextSession (session a), Next])"
proof -
  have ne: "tok \<noteq> []" using tok by (rule extract_nonempty)
  obtain c' where g: "cache_get c tok (now_get rq) = (Some a, c')"
    using get by (cases "cache_get c tok (now_get rq)") auto
  have "try_block rq (Some c)
          = (Inr (), Some c', [SetContextUser (user a), SetContextSession (session a), Next])"
    using hd tok ne has g nx by (simp add: try_block_unfold inject_and_continue_def)
  then show ?thesis using g by (simp add: middleware_unfold)
qed

lemma resolve_remote_success:
  "resolve_remote rq tok (Some c) = (Inr u, sc1, evs) \<Longrightarrow>
     \<exists>a. sc1 = Some (cache_set c tok a (now_set rq))
        \<and> evs = [GetSession, SetContextUser (user a), SetContextSession (session a), Next]"
  by (auto simp: resolve_remote_unfold inject_and_continue_def Let_def
           split: sum.splits option.splits if_splits prod.splits)

lemma remote_success_shape:
  assumes run: "try_block rq (Some c) = (Inr u, sc1, evs)" and called: "GetSession \<in> set evs"
  shows "\<exists>ck tok a c'. getHeaders rq = Inr ck \<and> extractSessionToken (str_or ck []) = Some tok
           \<and> sc1 = Some (cache_set c' tok a (now_set rq)) \<and> opt_ttl c' = opt_ttl c
           \<and> opt_updateAgeOnGet c' = opt_updateAgeOnGet c
           \<and> evs = [GetSession, SetContextUser (user a), SetContextSession (session a), Next]"
proof (cases "getHeaders rq")
  case (Inl e)
  with run show ?thesis by (simp add: try_block_unfold)
next
  case (Inr ck)
  show ?thesis
  proof (cases "extractSessionToken (str_or ck [])")
    case None
    with run Inr show ?thesis by (simp add: try_block_unfold)
  next
    case (Some tok)
    show ?thesis
    proof (cases "tok = []")
      case True
      with run Inr Some show ?thesis by (simp add: try_block_unfold)
    next
      case ne: False
      show ?thesis
      proof (cases "cache_has c tok (now_has rq)")
        case False
        with run Inr Some ne have "resolve_remote rq tok (Some c) = (Inr u, sc1, evs)"
          by (simp add: try_block_unfold)
        from resolve_remote_success[OF this] Inr Some show ?thesis by blast
      next
        case True
        obtain r c' where g: "cache_get c tok (now_get rq) = (r, c')"
          by (cases "cache_get c tok (now_get rq)")
        have ttl: "opt_ttl c' = opt_ttl c" "opt_updateAgeOnGet c' = opt_updateAgeOnGet c"
          using get_keeps_options[of c tok "now_get rq"] g by (simp_all add: cache_get_def)
        show ?thesis
        proof (cases r)
          case None
          with run Inr Some ne True g have "resolve_remote rq tok (Some c') = (Inr u, sc1, evs)"
            by (simp add: try_block_unfold)
          from resolve_remote_success[OF this] Inr Some ttl show ?thesis by blast
        next
          case (Some a)
          with run Inr \<open>extractSessionToken (str_or ck []) = Some tok\<close> ne True g
          have "evs = [SetContextUser (user a), SetContextSession (session a), Next]"
            by (auto simp: try_block_unfold inject_and_continue_def)
          with called show ?thesis by simp
        qed
      qed
    qed
  qed
qed

lemma middleware_Returned_None:
  "middleware options rq ctx sessionCache = (Returned None, sc, evs) \<Longrightarrow>
     \<exists>u. try_block rq sessionCache = (Inr u, sc, evs)"
  by (cases "try_block rq sessionCache")
     (auto simp: middleware_unfold catch_block_def split: sum.splits option.splits)

lemma cache_hit_step:
  assumes tok: "request_token rq = Some tok"
    and l: "lru_lookup c tok = Some e"
    and h: "now_has rq \<le> estart e + opt_ttl c" and g: "now_get rq \<le> estart e + opt_ttl c"
    and nx: "next_result rq = None"
  shows "\<exists>c'. middleware options rq ctx (Some c)
                 = (Returned None, Some c',
                    [SetContextUser (user (evalue e)), SetContextSession (session (evalue e)), Next])
              \<and> lru_lookup c' tok = Some (if opt_updateAgeOnGet c then e\<lparr>estart := now_get rq\<rparr> else e)
              \<and> opt_ttl c' = opt_ttl c \<and> opt_updateAgeOnGet c' = opt_updateAgeOnGet c"
proof -
  from tok obtain ck where hd: "getHeaders rq = Inr ck"
    and ex: "extractSessionToken (str_or ck []) = Some tok"
    by (auto simp: request_token_def split: sum.splits)
  have fh: "\<not> isStale c e (now_has rq)" using h by (simp add: isStale_def)
  have fg: "\<not> isStale c e (now_get rq)" using g by (simp add: isStale_def)
  have has: "cache_has c tok (now_has rq)" using l fh by (simp add: cache_has_def lru_has_def)
  have get: "fst (cache_get c tok (now_get rq)) = Some (evalue e)"
    using l fg by (simp add: cache_get_def lru_get_def)
  let ?c' = "snd (cache_get c tok (now_get rq))"
  have "middleware options rq ctx (Some c)
          = (Returned None, Some ?c',
             [SetContextUser (user (evalue e)), SetContextSession (session (evalue e)), Next])"
    using cache_hit_run[OF hd ex has get nx] .
  moreover have "lru_lookup ?c' tok = Some (if opt_updateAgeOnGet c then e\<lparr>estart := now_get rq\<rparr> else e)"
    using lookup_after_fresh_get[OF l fg] by (simp add: cache_get_def)
  moreover have "opt_ttl ?c' = opt_ttl c \<and> opt_updateAgeOnGet ?c' = opt_updateAgeOnGet c"
    by (simp add: cache_get_def get_keeps_options)
  ultimately show ?thesis by blast
qed

lemma warm_runs:
  assumes "lru_lookup c tok = Some e" and "opt_updateAgeOnGet c"
    and "\<forall>r\<in>set rqs. request_token r = Some tok \<and> next_result r = None"
    and "reads_within (opt_ttl c) (estart e) rqs"
  shows "run_all options ctx rqs (Some c)
           = replicate (length rqs)
               (Returned None,
                [SetContextUser (user (evalue e)), SetContextSession (session (evalue e)), Next])"
  using assms
proof (induction rqs arbitrary: c e)
  case Nil
  then show ?case by simp
next
  case (Cons rq rqs)
  from Cons.prems have tok: "request_token rq = Some tok" and nx: "next_result rq = None"
    and h: "now_has rq \<le> estart e + opt_ttl c" and g: "now_get rq \<le> estart e + opt_ttl c"
    and rest: "reads_within (opt_ttl c) (now_get rq) rqs"
    by simp_all
  from cache_hit_step[OF tok Cons.prems(1) h g nx, of options ctx] Cons.prems(2)
  obtain c' where m: "middleware options rq ctx (Some c)
                 = (Returned None, Some c',
                    [SetContextUser (user (evalue e)), SetContextSession (session (evalue e)), Next])"
    and l': "lru_lookup c' tok = Some (e\<lparr>estart := now_get rq\<rparr>)"
    and o': "opt_ttl c' = opt_ttl c" "opt_updateAgeOnGet c'"
    by auto
  have "run_all options ctx rqs (Some c')
          = replicate (length rqs)
              (Returned None,
               [SetContextUser (user (evalue (e\<lparr>estart := now_get rq\<rparr>))),
                SetContextSession (session (evalue (e\<lparr>estart := now_get rq\<rparr>))), Next])"
    using Cons.prems(3) rest o' by (intro Cons.IH[OF l' o'(2)]) simp_all
  with m show ?case by simp
qed

lemma nat_or_pos: "0 < d \<Longrightarrow> 0 < nat_or x d"
  by (cases x) auto

lemma createAuthMiddleware_options:
  "createAuthMiddleware options = Inr (Some cnew) \<Longrightarrow>
     opt_updateAgeOnGet cnew \<and> \<not> opt_allowStale cnew \<and> opt_ttl cnew \<noteq> 0 \<and> opt_max cnew \<noteq> 0
     \<and> items cnew = []"
  by (auto simp: createAuthMiddleware_def SessionCache_new_def LRUCache_new_def nat_or_pos
           split: option.splits if_splits sum.splits)

text \<open>
  C8. Let a middleware with the cache enabled authenticate a token through the remote
  resolver and return nothing. Then every further invocation with the same token, made
  while the entry is unexpired at both of its cache reads (at most the time-to-live
  after the first invocation wrote it or the invocation before read it) and with a
  continuation that completes, makes no remote call, injects the same user and session
  as the first and returns nothing.
\<close>

theorem warm_cache_repeats_authentication:
  assumes mk: "createAuthMiddleware options = Inr (Some cnew)"
    and run: "middleware options rq ctx (Some (cnew\<lparr>items := es\<rparr>)) = (Returned None, sc, evs)"
    and remote: "GetSession \<in> set evs"
    and same: "\<forall>r\<in>set rqs. request_token r = request_token rq \<and> next_result r = None"
    and warm: "reads_within (opt_ttl cnew) (now_set rq) rqs"
  shows "\<exists>u s. evs = [GetSession, SetContextUser u, SetContextSession s, Next]
           \<and> run_all options ctx' rqs sc
               = replicate (length rqs)
                   (Returned None, [SetContextUser u, SetContextSession s, Next])"
proof -
  let ?c = "cnew\<lparr>items := es\<rparr>"
  from createAuthMiddleware_options[OF mk] have age: "opt_updateAgeOnGet ?c" by simp
  from middleware_Returned_None[OF run] obtain u where "try_block rq (Some ?c) = (Inr u, sc, evs)"
    by blast
  from remote_success_shape[OF this remote] obtain ck tok a c'
    where hd: "getHeaders rq = Inr ck" and tok: "extractSessionToken (str_or ck []) = Some tok"
      and sc: "sc = Some (cache_set c' tok a (now_set rq))" and ttl: "opt_ttl c' = opt_ttl ?c"
      and upd: "opt_updateAgeOnGet c' = opt_updateAgeOnGet ?c"
      and evs: "evs = [GetSession, SetContextUser (user a), SetContextSession (session a), Next]"
    by blast
  let ?c1 = "cache_set c' tok a (now_set rq)"
  let ?e = "\<lparr>ekey = tok, evalue = a, estart = now_set rq\<rparr>"
  have l: "lru_lookup ?c1 tok = Some ?e" by (simp add: cache_set_def lookup_after_set)
  have o: "opt_ttl ?c1 = opt_ttl cnew" "opt_updateAgeOnGet ?c1"
    using ttl upd age by (simp_all add: cache_set_def set_keeps_options)
  have rt: "request_token rq = Some tok" using hd tok by (simp add: request_token_def)
  have same': "\<forall>r\<in>set rqs. request_token r = Some tok \<and> next_result r = None"
    using same rt by simp
  have warm': "reads_within (opt_ttl ?c1) (estart ?e) rqs" using warm o by simp
  from warm_runs[OF l o(2) same' warm', of options ctx'] evs sc show ?thesis by simp
qed

text \<open>
  The scenario of the specification, followed after 200 and after 500 seconds by
  requests with the same token for which the remote resolver would fail.
\<close>

theorem warm_cache_repeats_authentication_witness:
  "createAuthMiddleware scenario_options = Inr (Some scenario_cache)
   \<and> middleware scenario_options scenario_request () (Some scenario_cache)
      = (Returned None, Some (cache_set scenario_cache ''abc123'' scenario_context 5),
         [GetSession, SetContextUser scenario_user, SetContextSession scenario_session, Next])
   \<and> run_all scenario_options ()
        [scenario_request\<lparr>getSession := Inl (JsError ''Network error''),
                           now_has := 200000, now_get := 200001\<rparr>,
         scenario_request\<lparr>getHeaders := Inr (Some ''other=1; better-auth.session_token=abc123''),
                           getSession := Inl (JsError ''Network error''),
                           now_has := 500000, now_get := 500001\<rparr>]
        (Some (cache_set scenario_cache ''abc123'' scenario_context 5))
      = [(Returned None, [SetContextUser scenario_user, SetContextSession scenario_session, Next]),
         (Returned None, [SetContextUser scenario_user, SetContextSession scenario_session, Next])]"
proof -
  let ?second = "scenario_request\<lparr>getSession := Inl (JsError ''Network error''),
                                   now_has := 200000, now_get := 200001\<rparr>"
  let ?third = "scenario_request\<lparr>getHeaders := Inr (Some ''other=1; better-auth.session_token=abc123''),
                                  getSession := Inl (JsError ''Network error''),
                                  now_has := 500000, now_get := 500001\<rparr>"
  have mk: "createAuthMiddleware scenario_options = Inr (Some scenario_cache)"
    by (simp add: createAuthMiddleware_def scenario_options_def scenario_cache_def
          SessionCache_new_def LRUCache_new_def)
  have same_cache: "scenario_cache\<lparr>items := []\<rparr> = scenario_cache"
    by (simp add: scenario_cache_def)
  have miss: "\<not> cache_has scenario_cache ''abc123'' 5"
    by (simp add: cache_has_def lru_has_def lru_lookup_def scenario_cache_def)
  have run: "middleware scenario_options scenario_request () (Some scenario_cache)
      = (Returned None, Some (cache_set scenario_cache ''abc123'' scenario_context 5),
         [GetSession, SetContextUser scenario_user, SetContextSession scenario_session, Next])"
    using miss
    by (simp add: middleware_unfold try_block_unfold resolve_remote_unfold inject_and_continue_def
          scenario_request_def scenario_token scenario_context_def)
  have run': "middleware scenario_options scenario_request () (Some (scenario_cache\<lparr>items := []\<rparr>))
      = (Returned None, Some (cache_set scenario_cache ''abc123'' scenario_context 5),
         [GetSession, SetContextUser scenario_user, SetContextSession scenario_session, Next])"
    using run by (simp only: same_cache)
  have called: "GetSession \<in> set [GetSession, SetContextUser scenario_user,
                   SetContextSession scenario_session, Next]" by simp
  have first: "request_token scenario_request = Some ''abc123''"
    by (simp add: request_token_def scenario_request_def scenario_token)
  have other: "extractSessionToken ''other=1; better-auth.session_token=abc123'' = Some ''abc123''"
    by (simp add: extractSessionToken_def sessionCookieNames_def compile_name_def match_here_def
          line_terminator_def)
  have same: "\<forall>r\<in>set [?second, ?third]. request_token r = request_token scenario_request
                 \<and> next_result r = None"
    using first other by (simp add: request_token_def scenario_request_def scenario_token)
  have warm: "reads_within (opt_ttl scenario_cache) (now_set scenario_request) [?second, ?third]"
    by (simp add: scenario_request_def scenario_cache_def)
  from warm_cache_repeats_authentication[where es = "[]" and ctx' = "()",
         OF mk run' called same warm]
  have "run_all scenario_options () [?second, ?third]
          (Some (cache_set scenario_cache ''abc123'' scenario_context 5))
        = replicate (length [?second, ?third])
            (Returned None, [SetContextUser scenario_user, SetContextSession scenario_session, Next])"
    by simp
  then have "run_all scenario_options () [?second, ?third]
          (Some (cache_set scenario_cache ''abc123'' scenario_context 5))
        = [(Returned None, [SetContextUser scenario_user, SetContextSession scenario_session, Next]),
           (Returned None, [SetContextUser scenario_user, SetContextSession scenario_session, Next])]"
    by (simp add: numeral_2_eq_2)
  with mk run show ?thesis by simp
qed

subsection \<open>A cache whose \<open>get\<close> finds nothing after \<open>has\<close> found the token\<close>

text \<open>
  The \<open>SessionCache\<close> of the repository, asked at one reading of the clock, never
  answers \<open>has\<close> with \<open>true\<close> and the following \<open>get\<close> with nothing; the test suite reaches
  this branch of the middleware with a mocked cache.
\<close>

lemma get_after_has_at_one_reading:
  "cache_has c key now \<Longrightarrow> fst (cache_get c key now) \<noteq> None"
  by (auto simp: cache_has_def lru_has_def cache_get_def lru_get_def split: option.splits)

lemma resolve_remote_with_calls_first:
  "\<exists>r sc evs. resolve_remote_with methods rq tok sessionCache = (r, sc, GetSession # evs)"
  by (auto simp: resolve_remote_with_def inject_and_continue_def Let_def
           split: sum.splits option.splits if_splits prod.splits)

text \<open>
  C10. Whatever the methods of the cache are: if \<open>has\<close> answers that the token is present
  and the following \<open>get\<close> returns nothing, the invocation continues with the remote
  resolution on the cache as \<open>get\<close> left it, as an invocation whose \<open>has\<close> answers that the
  token is not present continues with the remote resolution on its cache. So the remote
  resolver is called before anything else: nothing is injected and nothing returned
  from the branch of the cache hit.
\<close>

theorem absent_get_after_has_is_a_miss:
  assumes tok: "request_token rq = Some tok"
    and has: "method_has methods c tok"
    and get: "method_get methods c tok = (None, c')"
  shows "try_block_with methods rq (Some c) = resolve_remote_with methods rq tok (Some c')
       \<and> (\<forall>d. \<not> method_has methods d tok \<longrightarrow>
              try_block_with methods rq (Some d) = resolve_remote_with methods rq tok (Some d))
       \<and> (\<exists>r sc evs. try_block_with methods rq (Some c) = (r, sc, GetSession # evs))
       \<and> (\<exists>out sc evs. middleware_with methods options rq ctx (Some c) = (out, sc, GetSession # evs))"
proof -
  from tok obtain ck where hd: "getHeaders rq = Inr ck"
    and ex: "extractSessionToken (str_or ck []) = Some tok"
    by (auto simp: request_token_def split: sum.splits)
  have ne: "tok \<noteq> []" using ex by (rule extract_nonempty)
  have a: "try_block_with methods rq (Some c) = resolve_remote_with methods rq tok (Some c')"
    using hd ex ne has get by (simp add: try_block_with_def)
  have b: "try_block_with methods rq (Some d) = resolve_remote_with methods rq tok (Some d)"
    if "\<not> method_has methods d tok" for d
    using hd ex ne that by (simp add: try_block_with_def)
  from resolve_remote_with_calls_first[of methods rq tok "Some c'"] a
  obtain r sc evs where first: "try_block_with methods rq (Some c) = (r, sc, GetSession # evs)"
    by auto
  then have "\<exists>out. middleware_with methods options rq ctx (Some c) = (out, sc, GetSession # evs)"
    by (cases r) (simp_all add: middleware_with_def)
  with a b first show ?thesis by blast
qed

text \<open>
  The test \<open>should handle cache with undefined value\<close>: the remote resolver is called, its
  user and session are injected and written to the cache, and the continuation runs.
\<close>

theorem absent_get_after_has_is_a_miss_witness:
  "request_token scenario_request = Some ''abc123''
   \<and> method_has undefined_value_mock [] ''abc123''
   \<and> method_get undefined_value_mock [] ''abc123'' = (None, [])
   \<and> try_block_with undefined_value_mock scenario_request (Some [])
      = (Inr (), Some [(''abc123'', scenario_context)],
         [GetSession, SetContextUser scenario_user, SetContextSession scenario_session, Next])"
proof -
  have tok: "request_token scenario_request = Some ''abc123''"
    by (simp add: request_token_def scenario_request_def scenario_token)
  have has: "method_has undefined_value_mock [] ''abc123''"
    by (simp add: undefined_value_mock_def)
  have get: "method_get undefined_value_mock [] ''abc123'' = (None, [])"
    by (simp add: undefined_value_mock_def)
  from absent_get_after_has_is_a_miss[OF tok has get, of scenario_options "()"]
  have "try_block_with undefined_value_mock scenario_request (Some [])
          = resolve_remote_with undefined_value_mock scenario_request ''abc123'' (Some [])"
    by simp
  then have "try_block_with undefined_value_mock scenario_request (Some [])
      = (Inr (), Some [(''abc123'', scenario_context)],
         [GetSession, SetContextUser scenario_user, SetContextSession scenario_session, Next])"
    by (simp add: resolve_remote_with_def inject_and_continue_def scenario_request_def
          undefined_value_mock_def scenario_context_def)
  with tok has get show ?thesis by simp
qed

end
